theory Spec2Isabelle
  imports Main "HOL-Library.AList" "HOL-Library.Multiset"
begin

section \<open>Values and errors\<close>

text \<open>
  Dtype names are Python strings. A Python \<open>dict\<close> is an association list in insertion
  order with distinct keys; a Python \<open>set\<close> of strings is a duplicate-free list, whose
  order stands for the (unspecified) iteration order of the set. Every \<open>raise\<close> of the
  source is a constructor of \<open>error\<close>; all of them are \<open>ValueError\<close> in the source
  and are told apart by their message, except \<open>KeyError\<close>, \<open>TypeError\<close> and
  \<open>UnpackError\<close>, which the interpreter raises itself.
\<close>

type_synonym dtype = string
type_synonym table = "(string \<times> string list) list"

text \<open>What a caller may pass for a dtype: \<open>None\<close>, the Python types \<open>int\<close> and
  \<open>float\<close>, a string, or any other object (a backend dtype object).\<close>

datatype pyvalue = PyNone | PyInt | PyFloat | PyStr string | PyObject nat

datatype error =
    CycleDetected string
  | KeyError string
  | TypeError
  | UnpackError
  | UnknownDtype string
  | NoPromotionPath "string list"
  | IllFormedLattice "string list" "string list"
  | InvalidDtype string
  | InvalidArgumentDtype string
  | InvalidArgumentPrecision string
  | StandardizeError pyvalue
  | StopIteration

section \<open>The dtype vocabulary\<close>

definition BOOL_TYPES :: "dtype list" where
  "BOOL_TYPES = [''bool'']"

definition INT_TYPES :: "dtype list" where
  "INT_TYPES = [''uint8'', ''uint16'', ''uint32'', ''uint64'',
                ''int8'', ''int16'', ''int32'', ''int64'']"

definition FLOAT_TYPES :: "dtype list" where
  "FLOAT_TYPES = [''bfloat16'', ''float16'', ''float32'', ''float64'']"

definition COMPLEX_TYPES :: "dtype list" where
  "COMPLEX_TYPES = [''complex64'', ''complex128'']"

definition WEAK_TYPES :: "dtype list" where
  "WEAK_TYPES = [''int'', ''float'', ''complex'']"

section \<open>The promotion lattice\<close>

text \<open>\<open>_type_promotion_lattice\<close>: the names are unpacked from the vocabulary lists
  (whose lengths match the unpacking patterns) and the dict literal is built from them.\<close>

definition type_promotion_lattice :: table where
  "type_promotion_lattice =
    (let b1 = BOOL_TYPES ! 0;
         u1 = INT_TYPES ! 0; u2 = INT_TYPES ! 1; u4 = INT_TYPES ! 2; u8 = INT_TYPES ! 3;
         i1 = INT_TYPES ! 4; i2 = INT_TYPES ! 5; i4 = INT_TYPES ! 6; i8 = INT_TYPES ! 7;
         bf = FLOAT_TYPES ! 0; f2 = FLOAT_TYPES ! 1; f4 = FLOAT_TYPES ! 2; f8 = FLOAT_TYPES ! 3;
         c4 = COMPLEX_TYPES ! 0; c8 = COMPLEX_TYPES ! 1;
         iw = WEAK_TYPES ! 0; fw = WEAK_TYPES ! 1; cw = WEAK_TYPES ! 2
     in [(b1, [iw]),
         (u1, [i2, u2]),
         (u2, [i4, u4]),
         (u4, [i8, u8]),
         (u8, [fw]),
         (iw, [u1, i1]),
         (i1, [i2]),
         (i2, [i4]),
         (i4, [i8]),
         (i8, [fw]),
         (fw, [bf, f2, cw]),
         (bf, [f4]),
         (f2, [f4]),
         (f4, [f8, c4]),
         (f8, [c8]),
         (cw, [c4]),
         (c4, [c8]),
         (c8, [])])"

section \<open>The upper-bound closure\<close>

text \<open>\<open>lattice[b] for b in upper_bounds[n]\<close>: a missing key raises \<open>KeyError\<close>.\<close>

fun lookup_each :: "table \<Rightarrow> string list \<Rightarrow> error + string list list" where
  "lookup_each lattice [] = Inr []"
| "lookup_each lattice (b # bs) =
     (case map_of lattice b of
        None \<Rightarrow> Inl (KeyError b)
      | Some ms \<Rightarrow>
          (case lookup_each lattice bs of
             Inl e \<Rightarrow> Inl e
           | Inr r \<Rightarrow> Inr (ms # r)))"

text \<open>The nodes a lattice mentions on the right of an edge.\<close>

definition targets :: "table \<Rightarrow> string set" where
  "targets lattice = \<Union> (set ` snd ` set lattice)"

text \<open>The \<open>while True\<close> loop of \<open>_make_lattice_upper_bounds\<close> for one node \<open>n\<close>;
  \<open>ub\<close> is \<open>upper_bounds[n]\<close>.\<close>

function upper_bounds_loop :: "table \<Rightarrow> string \<Rightarrow> string list \<Rightarrow> error + string list" where
  "upper_bounds_loop lattice n ub =
     (case lookup_each lattice ub of
        Inl e \<Rightarrow> Inl e
      | Inr ls \<Rightarrow>
          (let new_upper_bounds = remdups (concat ls) in
           if n \<in> set new_upper_bounds then Inl (CycleDetected n)
           else if set new_upper_bounds \<subseteq> set ub then Inr ub
           else upper_bounds_loop lattice n
                  (ub @ filter (\<lambda>x. x \<notin> set ub) new_upper_bounds)))"
  by pat_completeness auto

lemma lookup_each_targets:
  "lookup_each lattice bs = Inr ls \<Longrightarrow> set (concat ls) \<subseteq> targets lattice"
proof (induction bs arbitrary: ls)
  case Nil
  then show ?case by simp
next
  case (Cons b bs)
  from Cons.prems obtain ms r where
    m: "map_of lattice b = Some ms" and r: "lookup_each lattice bs = Inr r" and
    ls: "ls = ms # r"
    by (auto split: option.splits sum.splits)
  from m have "(b, ms) \<in> set lattice" by (rule map_of_SomeD)
  then have "set ms \<subseteq> targets lattice" by (force simp: targets_def)
  with Cons.IH [OF r] ls show ?case by simp
qed

lemma finite_targets: "finite (targets lattice)"
  by (simp add: targets_def)

termination upper_bounds_loop
proof (relation "measure (\<lambda>(lattice, n, ub). card (targets lattice - set ub))")
  show "wf (measure (\<lambda>(lattice, n, ub). card (targets lattice - set ub)))" by simp
next
  fix lattice :: table and n :: string and ub new :: "string list" and ls :: "string list list"
  assume l: "lookup_each lattice ub = Inr ls"
    and new: "new = remdups (concat ls)"
    and ns: "\<not> set new \<subseteq> set ub"
  from lookup_each_targets [OF l] new have sub: "set new \<subseteq> targets lattice" by simp
  from ns obtain x where x: "x \<in> set new" "x \<notin> set ub" by auto
  with sub have "x \<in> targets lattice - set ub" by auto
  moreover have "x \<notin> targets lattice - set (ub @ filter (\<lambda>x. x \<notin> set ub) new)"
    using x by simp
  moreover have "targets lattice - set (ub @ filter (\<lambda>x. x \<notin> set ub) new)
                  \<subseteq> targets lattice - set ub" by auto
  ultimately have "targets lattice - set (ub @ filter (\<lambda>x. x \<notin> set ub) new)
                  \<subset> targets lattice - set ub" by blast
  then have "card (targets lattice - set (ub @ filter (\<lambda>x. x \<notin> set ub) new))
              < card (targets lattice - set ub)"
    by (intro psubset_card_mono) (simp_all add: finite_targets)
  then show "((lattice, n, ub @ filter (\<lambda>x. x \<notin> set ub) new), (lattice, n, ub))
              \<in> measure (\<lambda>(lattice, n, ub). card (targets lattice - set ub))"
    by simp
qed

declare upper_bounds_loop.simps [simp del]

text \<open>The \<open>for n in lattice\<close> loop: \<open>upper_bounds\<close> is the dict being filled in.\<close>

fun upper_bounds_for :: "table \<Rightarrow> string list \<Rightarrow> table \<Rightarrow> error + table" where
  "upper_bounds_for lattice [] upper_bounds = Inr upper_bounds"
| "upper_bounds_for lattice (n # ns) upper_bounds =
     (case map_of upper_bounds n of
        None \<Rightarrow> Inl (KeyError n)
      | Some ub \<Rightarrow>
          (case upper_bounds_loop lattice n ub of
             Inl e \<Rightarrow> Inl e
           | Inr ub' \<Rightarrow> upper_bounds_for lattice ns (AList.update n ub' upper_bounds)))"

text \<open>\<open>_make_lattice_upper_bounds\<close>, with the lattice it reads made a parameter.\<close>

definition make_lattice_upper_bounds_of :: "table \<Rightarrow> error + table" where
  "make_lattice_upper_bounds_of lattice =
     upper_bounds_for lattice (map fst lattice) (map (\<lambda>node. (node, [node])) (map fst lattice))"

definition make_lattice_upper_bounds :: "error + table" where
  "make_lattice_upper_bounds = make_lattice_upper_bounds_of type_promotion_lattice"

definition LATTICE_UPPER_BOUNDS :: "error + table" where
  "LATTICE_UPPER_BOUNDS = make_lattice_upper_bounds"

section \<open>The least upper bound\<close>

text \<open>\<open>set.intersection(*bounds)\<close>: the first set cut down by each of the others.\<close>

definition intersection :: "string list \<Rightarrow> string list list \<Rightarrow> string list" where
  "intersection b bs = fold (\<lambda>x acc. filter (\<lambda>c. c \<in> set x) acc) bs (remdups b)"

text \<open>\<open>{c for c in CUB if CUB.issubset(UB[c])}\<close>, iterating over \<open>cs\<close>.\<close>

fun candidates :: "table \<Rightarrow> string list \<Rightarrow> string list \<Rightarrow> error + string list" where
  "candidates UB CUB [] = Inr []"
| "candidates UB CUB (c # cs) =
     (case map_of UB c of
        None \<Rightarrow> Inl (KeyError c)
      | Some ubc \<Rightarrow>
          (case candidates UB CUB cs of
             Inl e \<Rightarrow> Inl e
           | Inr r \<Rightarrow> Inr (if set CUB \<subseteq> set ubc then c # r else r)))"

text \<open>\<open>_least_upper_bound\<close>, with the global table \<open>UB\<close> it reads made a parameter.
  The \<open>lru_cache\<close> around this pure function is not modelled.\<close>

definition least_upper_bound_on :: "table \<Rightarrow> string list \<Rightarrow> error + string" where
  "least_upper_bound_on UB nodes =
     (let N = remdups nodes in
      case lookup_each UB N of
        Inl e \<Rightarrow>
          (case find (\<lambda>n. map_of UB n = None) N of
             Some dtype \<Rightarrow> Inl (UnknownDtype dtype)
           | None \<Rightarrow> Inl StopIteration)
      | Inr bounds \<Rightarrow>
          (case bounds of
             [] \<Rightarrow> Inl TypeError
           | b # bs \<Rightarrow>
               (let CUB = intersection b bs;
                    fast = filter (\<lambda>c. c \<in> set N) CUB
                in case (if fast \<noteq> [] then Inr fast else candidates UB CUB CUB) of
                     Inl e \<Rightarrow> Inl e
                   | Inr LUB \<Rightarrow>
                       (case LUB of
                          [c] \<Rightarrow> Inr c
                        | [] \<Rightarrow> Inl (NoPromotionPath nodes)
                        | _ \<Rightarrow> Inl (IllFormedLattice nodes LUB)))))"

text \<open>The module is only usable when building \<open>LATTICE_UPPER_BOUNDS\<close> at import time
  did not raise.\<close>

definition least_upper_bound :: "string list \<Rightarrow> error + string" where
  "least_upper_bound nodes =
     (case LATTICE_UPPER_BOUNDS of
        Inl e \<Rightarrow> Inl e
      | Inr UB \<Rightarrow> least_upper_bound_on UB nodes)"

section \<open>Weak types\<close>

text \<open>Python's \<open>sub in s\<close> on strings.\<close>

fun contains :: "string \<Rightarrow> string \<Rightarrow> bool" where
  "contains sub [] = (sub = [])"
| "contains sub (c # s) = (take (length sub) (c # s) = sub \<or> contains sub s)"

text \<open>What the module imports from \<open>keras.backend\<close>: the default float dtype
  \<open>backend.floatx()\<close>, the set \<open>ALLOWED_DTYPES\<close> and \<open>standardize_dtype\<close>, which
  returns a dtype name or raises. None of them is defined in this module, so they are
  parameters of the model.\<close>

record backend_env =
  floatx :: dtype
  ALLOWED_DTYPES :: "dtype list"
  standardize_dtype :: "pyvalue \<Rightarrow> dtype option"

definition dtype_and_weaktype :: "backend_env \<Rightarrow> pyvalue \<Rightarrow> error + (dtype \<times> bool)" where
  "dtype_and_weaktype env v =
     (let is_weak_type = (v = PyInt \<or> v = PyFloat) in
      case standardize_dtype env v of
        None \<Rightarrow> Inl (StandardizeError v)
      | Some d \<Rightarrow> Inr (d, is_weak_type))"

definition respect_weak_type :: "dtype \<Rightarrow> bool \<Rightarrow> error + dtype" where
  "respect_weak_type dtype weak_type =
     (if weak_type then
        (if dtype = ''bool'' then Inr dtype
         else if contains ''float'' dtype then Inr ''float''
         else if contains ''int'' dtype then Inr ''int''
         else Inl (InvalidDtype dtype))
      else Inr dtype)"

definition resolve_weak_type :: "backend_env \<Rightarrow> dtype \<Rightarrow> string \<Rightarrow> error + dtype" where
  "resolve_weak_type env dtype precision =
     (if dtype \<notin> set (ALLOWED_DTYPES env) \<union> set WEAK_TYPES then Inl (InvalidArgumentDtype dtype)
      else if precision \<notin> set [''16'', ''32'', ''64''] then Inl (InvalidArgumentPrecision precision)
      else
        (let dtype_indicator = (if dtype = ''bfloat16'' then ''f'' else take 1 dtype) in
         if dtype_indicator = ''b'' then Inr ''bool''
         else if dtype_indicator = ''i'' then Inr (''int'' @ precision)
         else if dtype_indicator = ''u'' then Inr (''uint'' @ precision)
         else Inr (''float'' @ precision)))"

section \<open>The result type\<close>

text \<open>Evaluating a generator of calls that may raise: the first error ends it.\<close>

fun collect :: "('e + 'a) list \<Rightarrow> 'e + 'a list" where
  "collect [] = Inr []"
| "collect (r # rs) =
     (case r of
        Inl e \<Rightarrow> Inl e
      | Inr x \<Rightarrow> (case collect rs of Inl e \<Rightarrow> Inl e | Inr xs \<Rightarrow> Inr (x # xs)))"

text \<open>The four branches of \<open>_lattice_result_type\<close> that compute
  \<open>(out_dtype, out_weak_type)\<close>; \<open>pairs\<close> is \<open>zip(dtypes, weak_types)\<close>, not empty.\<close>

definition promote :: "(dtype \<times> bool) list \<Rightarrow> error + (dtype \<times> bool)" where
  "promote pairs =
     (let dtypes = map fst pairs; weak_types = map snd pairs in
      if length dtypes = 1 then Inr (hd dtypes, hd weak_types)
      else if length (remdups dtypes) = 1 \<and> \<not> list_all id weak_types
        then Inr (hd dtypes, False)
      else if list_all id weak_types then
        (case collect (map (\<lambda>d. respect_weak_type d False) dtypes) of
           Inl e \<Rightarrow> Inl e
         | Inr ns \<Rightarrow>
             (case least_upper_bound (remdups ns) of
                Inl e \<Rightarrow> Inl e
              | Inr out_dtype \<Rightarrow> Inr (out_dtype, True)))
      else
        (case collect (map (\<lambda>(d, w). respect_weak_type d w) pairs) of
           Inl e \<Rightarrow> Inl e
         | Inr ns \<Rightarrow>
             (case least_upper_bound (remdups ns) of
                Inl e \<Rightarrow> Inl e
              | Inr out_dtype \<Rightarrow> Inr (out_dtype, out_dtype \<in> set WEAK_TYPES))))"

definition lattice_result_type :: "backend_env \<Rightarrow> pyvalue list \<Rightarrow> error + dtype" where
  "lattice_result_type env args =
     (case collect (map (dtype_and_weaktype env) args) of
        Inl e \<Rightarrow> Inl e
      | Inr pairs \<Rightarrow>
          if pairs = [] then Inl UnpackError
          else
            (case promote pairs of
               Inl e \<Rightarrow> Inl e
             | Inr (out_dtype, w) \<Rightarrow>
                 (let out_weak_type = (out_dtype \<noteq> ''bool'' \<and> w);
                      precision = drop (length (floatx env) - 2) (floatx env)
                  in if out_weak_type then resolve_weak_type env out_dtype precision
                     else Inr out_dtype)))"

definition result_type :: "backend_env \<Rightarrow> pyvalue list \<Rightarrow> error + dtype" where
  "result_type env dtypes =
     (if length dtypes = 0 then Inr (floatx env)
      else lattice_result_type env
             (map (\<lambda>arg. if arg = PyNone then PyStr (floatx env) else arg) dtypes))"

section \<open>Dtype policies\<close>

text \<open>\<open>keras.dtype_policies.get\<close>. The policy classes, the global policy
  \<open>dtype_policy.dtype_policy()\<close> and the deserializer are imported from modules that
  are not part of this development: \<open>'p\<close> is the type of policy objects, \<open>'d\<close> the
  type of dicts, and the two constructors and the deserializer return a policy or raise.\<close>

datatype ('p, 'd) policy_identifier = Value pyvalue | Policy 'p | Dict 'd

record ('p, 'd) policy_env =
  dtype_policy :: 'p
  deserialize_keras_object :: "'d \<Rightarrow> error + 'p"
  FloatDTypePolicy :: "string \<Rightarrow> error + 'p"
  QuantizedDTypePolicy :: "string \<Rightarrow> error + 'p"

text \<open>\<open>CannotInterpret\<close> is the \<open>ValueError\<close> raised by \<open>get\<close> itself, which
  names the identifier it received; \<open>Raised\<close> is an error of a collaborator passing
  through.\<close>

datatype ('p, 'd) get_error = CannotInterpret "('p, 'd) policy_identifier" | Raised error

definition raised :: "error + 'p \<Rightarrow> ('p, 'd) get_error + 'p" where
  "raised r = (case r of Inl e \<Rightarrow> Inl (Raised e) | Inr x \<Rightarrow> Inr x)"

definition get :: "('p, 'd) policy_env \<Rightarrow> backend_env \<Rightarrow> ('p, 'd) policy_identifier
    \<Rightarrow> ('p, 'd) get_error + 'p" where
  "get penv env identifier =
     (case identifier of
        Value PyNone \<Rightarrow> Inr (dtype_policy penv)
      | Policy p \<Rightarrow> Inr p
      | Dict d \<Rightarrow> raised (deserialize_keras_object penv d)
      | Value (PyStr s) \<Rightarrow>
          (if contains ''int8'' s then raised (QuantizedDTypePolicy penv s)
           else raised (FloatDTypePolicy penv s))
      | Value v \<Rightarrow>
          (case standardize_dtype env v of
             None \<Rightarrow> Inl (CannotInterpret identifier)
           | Some d \<Rightarrow>
               (case FloatDTypePolicy penv d of
                  Inl e \<Rightarrow> Inl (CannotInterpret identifier)
                | Inr p \<Rightarrow> Inr p)))"

section \<open>Notions used to state the properties\<close>

text \<open>An error without its payload: which \<open>raise\<close> of the source it comes from.\<close>

fun error_kind :: "error \<Rightarrow> error" where
  "error_kind (CycleDetected n) = CycleDetected []"
| "error_kind (KeyError k) = KeyError []"
| "error_kind TypeError = TypeError"
| "error_kind UnpackError = UnpackError"
| "error_kind (UnknownDtype d) = UnknownDtype []"
| "error_kind (NoPromotionPath ns) = NoPromotionPath []"
| "error_kind (IllFormedLattice ns lub) = IllFormedLattice [] []"
| "error_kind (InvalidDtype d) = InvalidDtype []"
| "error_kind (InvalidArgumentDtype d) = InvalidArgumentDtype []"
| "error_kind (InvalidArgumentPrecision p) = InvalidArgumentPrecision []"
| "error_kind (StandardizeError v) = StandardizeError PyNone"
| "error_kind StopIteration = StopIteration"

text \<open>The outcome of a call up to the payload of its error.\<close>

definition outcome :: "error + 'a \<Rightarrow> error + 'a" where
  "outcome r = (case r of Inl e \<Rightarrow> Inl (error_kind e) | Inr x \<Rightarrow> Inr x)"

text \<open>The upper bounds of a node in a closure table, as a set (empty for an unknown
  node), the common upper bounds of a set of nodes, and the least ones among them.\<close>

definition UB_set :: "table \<Rightarrow> string \<Rightarrow> string set" where
  "UB_set UB n = (case map_of UB n of None \<Rightarrow> {} | Some ub \<Rightarrow> set ub)"

definition CUB_set :: "table \<Rightarrow> string set \<Rightarrow> string set" where
  "CUB_set UB N = (\<Inter>n\<in>N. UB_set UB n)"

definition candidate_set :: "table \<Rightarrow> string set \<Rightarrow> string set" where
  "candidate_set UB N = {c \<in> CUB_set UB N. CUB_set UB N \<subseteq> UB_set UB c}"

text \<open>A closure table is closed when every node in a closure has an entry of its own,
  and antisymmetric when no two different nodes are upper bounds of each other.\<close>

definition closed_table :: "table \<Rightarrow> bool" where
  "closed_table UB = (\<Union> (set ` snd ` set UB) \<subseteq> fst ` set UB)"

definition antisymmetric :: "table \<Rightarrow> bool" where
  "antisymmetric UB =
     list_all (\<lambda>(n, ub). list_all (\<lambda>m. m = n \<or> n \<notin> UB_set UB m) ub) UB"

text \<open>The covering edges of a lattice, as a relation.\<close>

definition edges :: "table \<Rightarrow> (string \<times> string) set" where
  "edges lattice = {(n, m). \<exists>ms. map_of lattice n = Some ms \<and> m \<in> set ms}"

text \<open>The upper-bound closure of a node in the table built at import time.\<close>

definition upper_bound_closure :: "string \<Rightarrow> string set" where
  "upper_bound_closure n =
     (case LATTICE_UPPER_BOUNDS of Inl e \<Rightarrow> {} | Inr UB \<Rightarrow> UB_set UB n)"

section \<open>An instance of the backend\<close>

text \<open>Modelled from the spec: the external collaborators \<open>standardizeDtype\<close> and
  \<open>ambientDefaultFloatDtype\<close> (\<open>keras.backend\<close> is not among the sources). A name of
  the canonical vocabulary is standardized to itself, \<open>None\<close> to the default float
  dtype, the Python types \<open>int\<close> and \<open>float\<close> to \<open>int32\<close> and \<open>float32\<close>;
  anything else is rejected. The theorems are stated for an arbitrary backend; this one
  serves to instantiate them at concrete inputs.\<close>

definition keras_standardize_dtype :: "dtype \<Rightarrow> pyvalue \<Rightarrow> dtype option" where
  "keras_standardize_dtype fx v =
     (case v of
        PyNone \<Rightarrow> Some fx
      | PyInt \<Rightarrow> Some ''int32''
      | PyFloat \<Rightarrow> Some ''float32''
      | PyStr s \<Rightarrow>
          (if s \<in> set (BOOL_TYPES @ INT_TYPES @ FLOAT_TYPES @ COMPLEX_TYPES) then Some s
           else None)
      | PyObject n \<Rightarrow> None)"

definition keras_env :: "dtype \<Rightarrow> backend_env" where
  "keras_env fx =
     \<lparr>floatx = fx,
      ALLOWED_DTYPES = BOOL_TYPES @ INT_TYPES @ FLOAT_TYPES @ COMPLEX_TYPES,
      standardize_dtype = keras_standardize_dtype fx\<rparr>"

text \<open>Modelled from the spec: the policy collaborators (\<open>keras.dtype_policies.dtype_policy\<close>
  and \<open>keras.saving.serialization_lib\<close> are not among the sources). Policies are shown
  as strings naming the class and the name they were built from; the quantized
  constructor accepts only names of the form \<open>int8_from_...\<close>. The theorems are stated
  for arbitrary collaborators; these serve to instantiate them at concrete inputs.\<close>

definition sample_policy_env :: "(string, nat) policy_env" where
  "sample_policy_env =
     \<lparr>dtype_policy = ''Float:float32'',
      deserialize_keras_object = (\<lambda>d. Inr ''deserialized''),
      FloatDTypePolicy = (\<lambda>s. Inr (''Float:'' @ s)),
      QuantizedDTypePolicy =
        (\<lambda>s. if take 10 s = ''int8_from_'' then Inr (''Quantized:'' @ s)
             else Inl (InvalidDtype s))\<rparr>"

section \<open>The lattice and its closure, evaluated\<close>

lemma type_promotion_lattice_literal:
  "type_promotion_lattice =
    [(''bool'', [''int'']),
    (''uint8'', [''int16'', ''uint16'']),
    (''uint16'', [''int32'', ''uint32'']),
    (''uint32'', [''int64'', ''uint64'']),
    (''uint64'', [''float'']),
    (''int'', [''uint8'', ''int8'']),
    (''int8'', [''int16'']),
    (''int16'', [''int32'']),
    (''int32'', [''int64'']),
    (''int64'', [''float'']),
    (''float'', [''bfloat16'', ''float16'', ''complex'']),
    (''bfloat16'', [''float32'']),
    (''float16'', [''float32'']),
    (''float32'', [''float64'', ''complex64'']),
    (''float64'', [''complex128'']),
    (''complex'', [''complex64'']),
    (''complex64'', [''complex128'']),
    (''complex128'', [])]"
  unfolding type_promotion_lattice_def BOOL_TYPES_def INT_TYPES_def FLOAT_TYPES_def
    COMPLEX_TYPES_def WEAK_TYPES_def Let_def
  by simp

text \<open>
  C2. The lattice builder takes no argument and reads only the fixed vocabulary, so it is
  a constant; its value is exactly the list of covering edges below: eighteen nodes, from
  \<open>bool\<close> to the terminal \<open>complex128\<close>, and no other node or edge.
\<close>

theorem type_promotion_lattice_edges:
  "type_promotion_lattice =
    [(''bool'', [''int'']),
    (''uint8'', [''int16'', ''uint16'']),
    (''uint16'', [''int32'', ''uint32'']),
    (''uint32'', [''int64'', ''uint64'']),
    (''uint64'', [''float'']),
    (''int'', [''uint8'', ''int8'']),
    (''int8'', [''int16'']),
    (''int16'', [''int32'']),
    (''int32'', [''int64'']),
    (''int64'', [''float'']),
    (''float'', [''bfloat16'', ''float16'', ''complex'']),
    (''bfloat16'', [''float32'']),
    (''float16'', [''float32'']),
    (''float32'', [''float64'', ''complex64'']),
    (''float64'', [''complex128'']),
    (''complex'', [''complex64'']),
    (''complex64'', [''complex128'']),
    (''complex128'', [])]"
  by (rule type_promotion_lattice_literal)

lemma LATTICE_UPPER_BOUNDS_literal:
  "LATTICE_UPPER_BOUNDS =
    Inr [(''bool'',
         [''bool'', ''int'', ''uint8'', ''int8'', ''uint16'', ''int16'', ''uint32'', ''int32'', ''uint64'', ''int64'', ''float'', ''bfloat16'', ''float16'', ''complex'', ''float32'', ''complex64'', ''float64'', ''complex128'']),
        (''uint8'',
         [''uint8'', ''int16'', ''uint16'', ''int32'', ''uint32'', ''int64'', ''uint64'', ''float'', ''bfloat16'', ''float16'', ''complex'', ''float32'', ''complex64'', ''float64'', ''complex128'']),
        (''uint16'',
         [''uint16'', ''int32'', ''uint32'', ''int64'', ''uint64'', ''float'', ''bfloat16'', ''float16'', ''complex'', ''float32'', ''complex64'', ''float64'', ''complex128'']),
        (''uint32'',
         [''uint32'', ''int64'', ''uint64'', ''float'', ''bfloat16'', ''float16'', ''complex'', ''float32'', ''complex64'', ''float64'', ''complex128'']),
        (''uint64'',
         [''uint64'', ''float'', ''bfloat16'', ''float16'', ''complex'', ''float32'', ''complex64'', ''float64'', ''complex128'']),
        (''int'',
         [''int'', ''uint8'', ''int8'', ''uint16'', ''int16'', ''uint32'', ''int32'', ''uint64'', ''int64'', ''float'', ''bfloat16'', ''float16'', ''complex'', ''float32'', ''complex64'', ''float64'', ''complex128'']),
        (''int8'',
         [''int8'', ''int16'', ''int32'', ''int64'', ''float'', ''bfloat16'', ''float16'', ''complex'', ''float32'', ''complex64'', ''float64'', ''complex128'']),
        (''int16'',
         [''int16'', ''int32'', ''int64'', ''float'', ''bfloat16'', ''float16'', ''complex'', ''float32'', ''complex64'', ''float64'', ''complex128'']),
        (''int32'',
         [''int32'', ''int64'', ''float'', ''bfloat16'', ''float16'', ''complex'', ''float32'', ''complex64'', ''float64'', ''complex128'']),
        (''int64'',
         [''int64'', ''float'', ''bfloat16'', ''float16'', ''complex'', ''float32'', ''complex64'', ''float64'', ''complex128'']),
        (''float'',
         [''float'', ''bfloat16'', ''float16'', ''complex'', ''float32'', ''complex64'', ''float64'', ''complex128'']),
        (''bfloat16'',
         [''bfloat16'', ''float32'', ''float64'', ''complex64'', ''complex128'']),
        (''float16'',
         [''float16'', ''float32'', ''float64'', ''complex64'', ''complex128'']),
        (''float32'',
         [''float32'', ''float64'', ''complex64'', ''complex128'']),
        (''float64'',
         [''float64'', ''complex128'']),
        (''complex'',
         [''complex'', ''complex64'', ''complex128'']),
        (''complex64'',
         [''complex64'', ''complex128'']),
        (''complex128'',
         [''complex128''])]"
  by code_simp

lemma LATTICE_UPPER_BOUNDS_wellformed:
  "case LATTICE_UPPER_BOUNDS of
     Inl e \<Rightarrow> False
   | Inr UB \<Rightarrow>
       closed_table UB \<and> antisymmetric UB \<and> list_all (\<lambda>(n, ub). n \<in> set ub) UB \<and>
       set (map fst UB) =
         set (BOOL_TYPES @ INT_TYPES @ FLOAT_TYPES @ COMPLEX_TYPES @ WEAK_TYPES)"
  unfolding LATTICE_UPPER_BOUNDS_literal by code_simp

lemmas lub_eval = least_upper_bound_def LATTICE_UPPER_BOUNDS_literal least_upper_bound_on_def
  intersection_def Let_def

lemma contains_iff: "contains sub s \<longleftrightarrow> (\<exists>pre suf. s = pre @ sub @ suf)"
proof (induction s)
  case Nil
  then show ?case by auto
next
  case (Cons c s)
  show ?case
  proof
    assume "contains sub (c # s)"
    then consider "take (length sub) (c # s) = sub" | "contains sub s" by auto
    then show "\<exists>pre suf. c # s = pre @ sub @ suf"
    proof cases
      case 1
      then have "c # s = [] @ sub @ drop (length sub) (c # s)"
        by (metis append_Nil append_take_drop_id)
      then show ?thesis by blast
    next
      case 2
      with Cons.IH obtain pre suf where "s = pre @ sub @ suf" by blast
      then have "c # s = (c # pre) @ sub @ suf" by simp
      then show ?thesis by blast
    qed
  next
    assume "\<exists>pre suf. c # s = pre @ sub @ suf"
    then obtain pre suf where e: "c # s = pre @ sub @ suf" by blast
    show "contains sub (c # s)"
    proof (cases pre)
      case Nil
      with e have "take (length sub) (c # s) = sub" by simp
      then show ?thesis by simp
    next
      case (Cons a pre')
      with e have "s = pre' @ sub @ suf" by simp
      with Cons.IH have "contains sub s" by blast
      then show ?thesis by simp
    qed
  qed
qed

section \<open>Weak-type application\<close>

text \<open>
  C6. \<open>_respect_weak_type\<close> returns the dtype unchanged when the weak flag is false.
  When it is true, \<open>bool\<close> stays \<open>bool\<close>, every floating-point dtype (every name
  containing \<open>float\<close>) becomes the weak category \<open>float\<close>, every integer dtype (every
  other name containing \<open>int\<close>) becomes \<open>int\<close>, and any other name, the complex
  dtypes among them, is rejected with \<open>InvalidDtype\<close>; the weak category \<open>complex\<close>
  is never the result.
\<close>

theorem respect_weak_type_cases:
  "respect_weak_type d False = Inr d \<and>
   respect_weak_type ''bool'' True = Inr ''bool'' \<and>
   (\<forall>d \<in> set FLOAT_TYPES. respect_weak_type d True = Inr ''float'') \<and>
   (\<forall>d \<in> set INT_TYPES. respect_weak_type d True = Inr ''int'') \<and>
   (\<forall>d \<in> set COMPLEX_TYPES. respect_weak_type d True = Inl (InvalidDtype d)) \<and>
   (d \<noteq> ''bool'' \<and> contains ''float'' d \<longrightarrow> respect_weak_type d True = Inr ''float'') \<and>
   (d \<noteq> ''bool'' \<and> \<not> contains ''float'' d \<and> contains ''int'' d
      \<longrightarrow> respect_weak_type d True = Inr ''int'') \<and>
   (d \<noteq> ''bool'' \<and> \<not> contains ''float'' d \<and> \<not> contains ''int'' d
      \<longrightarrow> respect_weak_type d True = Inl (InvalidDtype d)) \<and>
   respect_weak_type d True \<noteq> Inr ''complex''"
  by (simp add: respect_weak_type_def FLOAT_TYPES_def INT_TYPES_def COMPLEX_TYPES_def)

theorem respect_weak_type_cases_witness:
  "''bfloat16'' \<in> set FLOAT_TYPES \<and> respect_weak_type ''bfloat16'' True = Inr ''float'' \<and>
   ''uint8'' \<in> set INT_TYPES \<and> respect_weak_type ''uint8'' True = Inr ''int'' \<and>
   ''complex64'' \<in> set COMPLEX_TYPES \<and>
   respect_weak_type ''complex64'' True = Inl (InvalidDtype ''complex64'') \<and>
   respect_weak_type ''string'' True = Inl (InvalidDtype ''string'')"
  using respect_weak_type_cases [of "''bfloat16''"] respect_weak_type_cases [of "''string''"]
  by (simp add: FLOAT_TYPES_def INT_TYPES_def COMPLEX_TYPES_def)

section \<open>The result type: no input, and \<open>None\<close>\<close>

text \<open>
  C8. With no input \<open>result_type\<close> returns the default float dtype. An input \<open>None\<close>,
  in first or in any other position, gives the same result as the default float dtype
  passed in its place.
\<close>

theorem result_type_none:
  "result_type env [] = Inr (floatx env) \<and>
   result_type env (PyNone # xs) = result_type env (PyStr (floatx env) # xs) \<and>
   result_type env (xs @ PyNone # ys) = result_type env (xs @ PyStr (floatx env) # ys)"
  by (simp add: result_type_def)

section \<open>The result type: examples and the all-weak branch\<close>

lemma collect_map_Inr: "collect (map Inr xs) = Inr xs"
  by (induction xs) auto

lemma collect_respect_False: "collect (map (\<lambda>d. respect_weak_type d False) ds) = Inr ds"
  by (induction ds) (auto simp: respect_weak_type_def)

lemma collect_respect_False_comp:
  "collect (map ((\<lambda>d. respect_weak_type d False) \<circ> f) xs) = Inr (map f xs)"
  by (induction xs) (auto simp: respect_weak_type_def)

lemma collect_Inr_length: "collect rs = Inr xs \<Longrightarrow> length xs = length rs"
  by (induction rs arbitrary: xs) (auto split: sum.splits)

lemma collect_dtype_and_weaktype:
  "collect (map (dtype_and_weaktype env) args) = Inr pairs \<Longrightarrow>
     map snd pairs = map (\<lambda>v. v = PyInt \<or> v = PyFloat) args \<and>
     map (Some \<circ> fst) pairs = map (standardize_dtype env) args"
  by (induction args arbitrary: pairs)
     (auto simp: dtype_and_weaktype_def split: sum.splits option.splits)

lemma least_upper_bound_singleton_signed:
  "d \<in> set [''int8'', ''int16'', ''int32'', ''int64''] \<Longrightarrow> least_upper_bound [d] = Inr d"
  by (auto simp: lub_eval)

lemma lub_evals:
  "least_upper_bound [''int64'', ''float64''] = Inr ''float64''"
  "least_upper_bound [''float64'', ''complex64''] = Inr ''complex128''"
  "least_upper_bound [''float32'', ''float''] = Inr ''float32''"
  by (simp_all add: lub_eval)

text \<open>
  C7. In a backend that standardizes the dtype names to themselves and the Python type
  \<open>float\<close> to some floating-point dtype: \<open>result_type(int32, int32)\<close> is \<open>int32\<close>,
  \<open>result_type(int64, float64)\<close> is \<open>float64\<close>, \<open>result_type(float64, complex64)\<close> is
  \<open>complex128\<close>, and \<open>result_type(float32, float)\<close>, where \<open>float\<close> is the weak float
  marker, is \<open>float32\<close>.
\<close>

theorem result_type_examples:
  assumes std: "\<forall>d \<in> set [''int32'', ''int64'', ''float32'', ''float64'', ''complex64''].
                  standardize_dtype env (PyStr d) = Some d"
    and f: "standardize_dtype env PyFloat = Some f" "f \<in> set FLOAT_TYPES"
  shows "result_type env [PyStr ''int32'', PyStr ''int32''] = Inr ''int32'' \<and>
         result_type env [PyStr ''int64'', PyStr ''float64''] = Inr ''float64'' \<and>
         result_type env [PyStr ''float64'', PyStr ''complex64''] = Inr ''complex128'' \<and>
         result_type env [PyStr ''float32'', PyFloat] = Inr ''float32''"
proof -
  have 1: "result_type env [PyStr ''int32'', PyStr ''int32''] = Inr ''int32''"
    using std by (simp add: result_type_def lattice_result_type_def dtype_and_weaktype_def
        promote_def)
  have 2: "result_type env [PyStr ''int64'', PyStr ''float64''] = Inr ''float64''"
    using std by (simp add: result_type_def lattice_result_type_def dtype_and_weaktype_def
        promote_def respect_weak_type_def lub_evals WEAK_TYPES_def)
  have 3: "result_type env [PyStr ''float64'', PyStr ''complex64''] = Inr ''complex128''"
    using std by (simp add: result_type_def lattice_result_type_def dtype_and_weaktype_def
        promote_def respect_weak_type_def lub_evals WEAK_TYPES_def)
  have 4: "result_type env [PyStr ''float32'', PyFloat] = Inr ''float32''"
  proof (cases "f = ''float32''")
    case True
    with std f show ?thesis
      by (simp add: result_type_def lattice_result_type_def dtype_and_weaktype_def promote_def)
  next
    case False
    from f(2) have c: "contains ''float'' f" "f \<noteq> ''bool''"
      by (auto simp: FLOAT_TYPES_def)
    with False std f(1) show ?thesis
      by (simp add: result_type_def lattice_result_type_def dtype_and_weaktype_def promote_def
          respect_weak_type_def lub_evals WEAK_TYPES_def)
  qed
  from 1 2 3 4 show ?thesis by simp
qed

theorem result_type_examples_witness:
  "result_type (keras_env ''float64'') [PyStr ''int32'', PyStr ''int32''] = Inr ''int32'' \<and>
   result_type (keras_env ''float64'') [PyStr ''int64'', PyStr ''float64''] = Inr ''float64'' \<and>
   result_type (keras_env ''float64'') [PyStr ''float64'', PyStr ''complex64'']
     = Inr ''complex128'' \<and>
   result_type (keras_env ''float64'') [PyStr ''float32'', PyFloat] = Inr ''float32''"
  by (rule result_type_examples [where f = "''float32''"])
     (simp_all add: keras_env_def keras_standardize_dtype_def BOOL_TYPES_def INT_TYPES_def
        FLOAT_TYPES_def COMPLEX_TYPES_def)

text \<open>
  C1. When every input is weak (the Python type \<open>int\<close> or \<open>float\<close>) and there are at
  least two, the result is computed in two phases: the least upper bound of the
  standardized dtypes themselves (not of their weak categories), and then, unless it is
  \<open>bool\<close>, its resolution as a weak type at the precision of the default float dtype.
  In particular, for a default float dtype \<open>float\<close>\<open>p\<close> with \<open>p\<close> one of 16, 32, 64
  and a backend that standardizes \<open>int\<close> to an allowed signed integer dtype,
  \<open>result_type(int, int)\<close> is \<open>int\<close>\<open>p\<close>.
\<close>

theorem all_weak_two_phase:
  "(list_all (\<lambda>v. v = PyInt \<or> v = PyFloat) args \<and> 2 \<le> length args \<longrightarrow>
      result_type env args =
        (case collect (map (dtype_and_weaktype env) args) of
           Inl e \<Rightarrow> Inl e
         | Inr pairs \<Rightarrow>
             (case least_upper_bound (remdups (map fst pairs)) of
                Inl e \<Rightarrow> Inl e
              | Inr out_dtype \<Rightarrow>
                  if out_dtype = ''bool'' then Inr out_dtype
                  else resolve_weak_type env out_dtype
                         (drop (length (floatx env) - 2) (floatx env))))) \<and>
   (p \<in> set [''16'', ''32'', ''64''] \<and> floatx env = ''float'' @ p \<and>
    standardize_dtype env PyInt = Some d \<and> d \<in> set [''int8'', ''int16'', ''int32'', ''int64''] \<and>
    d \<in> set (ALLOWED_DTYPES env) \<longrightarrow>
      result_type env [PyInt, PyInt] = Inr (''int'' @ p))"
proof (intro conjI impI)
  assume a: "list_all (\<lambda>v. v = PyInt \<or> v = PyFloat) args \<and> 2 \<le> length args"
  then have w: "map (\<lambda>v. v = PyInt \<or> v = PyFloat) args = replicate (length args) True"
    by (auto simp: list_all_iff intro!: nth_equalityI)
  from a have nn: "map (\<lambda>arg. if arg = PyNone then PyStr (floatx env) else arg) args = args"
    by (auto simp: list_all_iff intro!: map_idI)
  show "result_type env args =
        (case collect (map (dtype_and_weaktype env) args) of
           Inl e \<Rightarrow> Inl e
         | Inr pairs \<Rightarrow>
             (case least_upper_bound (remdups (map fst pairs)) of
                Inl e \<Rightarrow> Inl e
              | Inr out_dtype \<Rightarrow>
                  if out_dtype = ''bool'' then Inr out_dtype
                  else resolve_weak_type env out_dtype
                         (drop (length (floatx env) - 2) (floatx env))))"
  proof (cases "collect (map (dtype_and_weaktype env) args)")
    case (Inl e)
    with a nn show ?thesis by (auto simp: result_type_def lattice_result_type_def)
  next
    case (Inr pairs)
    from collect_Inr_length [OF Inr] have len: "length pairs = length args" by simp
    from collect_dtype_and_weaktype [OF Inr] w len
    have ws: "map snd pairs = replicate (length pairs) True" by simp
    then have allw: "list_all id (map snd pairs)"
      by (metis (full_types) id_apply in_set_replicate list_all_iff)
    from len a have ne: "pairs \<noteq> []" "length pairs \<noteq> 1" by auto
    have pr: "promote pairs =
        (case least_upper_bound (remdups (map fst pairs)) of
           Inl e \<Rightarrow> Inl e | Inr out_dtype \<Rightarrow> Inr (out_dtype, True))"
      using ne allw by (simp add: promote_def collect_respect_False_comp)
    from a nn Inr ne pr show ?thesis
      by (auto simp: result_type_def lattice_result_type_def Let_def split: sum.splits)
  qed
next
  assume h: "p \<in> set [''16'', ''32'', ''64''] \<and> floatx env = ''float'' @ p \<and>
    standardize_dtype env PyInt = Some d \<and> d \<in> set [''int8'', ''int16'', ''int32'', ''int64''] \<and>
    d \<in> set (ALLOWED_DTYPES env)"
  then have lub: "least_upper_bound [d] = Inr d"
    by (intro least_upper_bound_singleton_signed) simp
  from h have pr: "promote [(d, True), (d, True)] = Inr (d, True)"
    by (simp add: promote_def respect_weak_type_def lub)
  from h have prec: "drop (length (floatx env) - 2) (floatx env) = p" by auto
  from h have res: "resolve_weak_type env d p = Inr (''int'' @ p)"
    by (auto simp: resolve_weak_type_def)
  from h have nb: "d \<noteq> ''bool''" by auto
  from h pr prec res nb show "result_type env [PyInt, PyInt] = Inr (''int'' @ p)"
    by (simp add: result_type_def lattice_result_type_def dtype_and_weaktype_def)
qed

theorem all_weak_two_phase_witness:
  "result_type (keras_env ''float16'') [PyInt, PyInt] = Inr ''int16'' \<and>
   result_type (keras_env ''float32'') [PyInt, PyInt] = Inr ''int32'' \<and>
   result_type (keras_env ''float64'') [PyInt, PyInt] = Inr ''int64'' \<and>
   result_type (keras_env ''float64'') [PyInt, PyFloat] = Inr ''float64''"
proof -
  have e: "standardize_dtype (keras_env fx) PyInt = Some ''int32''"
    "standardize_dtype (keras_env fx) PyFloat = Some ''float32''"
    "floatx (keras_env fx) = fx"
    "''int32'' \<in> set (ALLOWED_DTYPES (keras_env fx))"
    "''float32'' \<in> set (ALLOWED_DTYPES (keras_env fx))" for fx
    by (simp_all add: keras_env_def keras_standardize_dtype_def BOOL_TYPES_def INT_TYPES_def
        FLOAT_TYPES_def)
  have l: "least_upper_bound [''int32'', ''float32''] = Inr ''float32''"
    by (simp add: lub_eval)
  from all_weak_two_phase [of "[PyInt, PyFloat]" "keras_env ''float64''"]
  have 4: "result_type (keras_env ''float64'') [PyInt, PyFloat] = Inr ''float64''"
    by (simp add: e dtype_and_weaktype_def l resolve_weak_type_def)
  from all_weak_two_phase [of _ "keras_env ''float16''" "''16''" "''int32''"]
       all_weak_two_phase [of _ "keras_env ''float32''" "''32''" "''int32''"]
       all_weak_two_phase [of _ "keras_env ''float64''" "''64''" "''int32''"] 4
  show ?thesis by (simp add: e)
qed

section \<open>Resolving a dtype policy\<close>

text \<open>
  C9. \<open>get\<close> dispatches on its identifier: \<open>None\<close> gives the current global policy; a
  policy instance is returned as it is; a dict goes to the deserializer; a string that
  contains \<open>int8\<close> anywhere (so also \<open>uint8\<close>) goes to the \<open>QuantizedDTypePolicy\<close>
  constructor, any other string to the \<open>FloatDTypePolicy\<close> constructor; any other
  value is standardized and the name given to the \<open>FloatDTypePolicy\<close> constructor, and
  when standardizing fails (or that constructor raises) the call fails with the error
  that names the identifier it received.
\<close>

theorem get_dispatch:
  "get penv env (Value PyNone) = Inr (dtype_policy penv) \<and>
   get penv env (Policy p) = Inr p \<and>
   get penv env (Dict d) = raised (deserialize_keras_object penv d) \<and>
   ((\<exists>pre suf. s = pre @ ''int8'' @ suf) \<longrightarrow>
      get penv env (Value (PyStr s)) = raised (QuantizedDTypePolicy penv s)) \<and>
   (\<not> (\<exists>pre suf. s = pre @ ''int8'' @ suf) \<longrightarrow>
      get penv env (Value (PyStr s)) = raised (FloatDTypePolicy penv s)) \<and>
   (v \<noteq> PyNone \<and> (\<forall>s. v \<noteq> PyStr s) \<and> standardize_dtype env v = Some name \<longrightarrow>
      get penv env (Value v) =
        (case FloatDTypePolicy penv name of
           Inl e \<Rightarrow> Inl (CannotInterpret (Value v))
         | Inr p \<Rightarrow> Inr p)) \<and>
   (v \<noteq> PyNone \<and> (\<forall>s. v \<noteq> PyStr s) \<and> standardize_dtype env v = None \<longrightarrow>
      get penv env (Value v) = Inl (CannotInterpret (Value v)))"
proof -
  have c: "(\<exists>pre suf. s = pre @ ''int8'' @ suf) = contains ''int8'' s"
    by (simp only: contains_iff)
  show ?thesis unfolding c by (cases v) (auto simp: get_def)
qed

theorem get_dispatch_witness:
  "get sample_policy_env (keras_env ''float32'') (Value (PyStr ''int8_from_mixed_bfloat16''))
     = Inr ''Quantized:int8_from_mixed_bfloat16'' \<and>
   get sample_policy_env (keras_env ''float32'') (Value (PyStr ''uint8''))
     = raised (QuantizedDTypePolicy sample_policy_env ''uint8'') \<and>
   get sample_policy_env (keras_env ''float32'') (Value (PyStr ''mixed_float16''))
     = Inr ''Float:mixed_float16'' \<and>
   get sample_policy_env (keras_env ''float32'') (Value PyFloat) = Inr ''Float:float32'' \<and>
   get sample_policy_env (keras_env ''float32'') (Value (PyObject 0))
     = Inl (CannotInterpret (Value (PyObject 0)))"
proof -
  have 1: "\<exists>pre suf. ''int8_from_mixed_bfloat16'' = pre @ ''int8'' @ suf"
    unfolding contains_iff [symmetric] by simp
  have 2: "\<exists>pre suf. ''uint8'' = pre @ ''int8'' @ suf"
    unfolding contains_iff [symmetric] by simp
  have 3: "\<not> (\<exists>pre suf. ''mixed_float16'' = pre @ ''int8'' @ suf)"
    unfolding contains_iff [symmetric] by simp
  have 4: "standardize_dtype (keras_env ''float32'') PyFloat = Some ''float32''"
    "standardize_dtype (keras_env ''float32'') (PyObject 0) = None"
    by (simp_all add: keras_env_def keras_standardize_dtype_def)
  from 1 2 3 4
    get_dispatch [of sample_policy_env "keras_env ''float32''" _ _ "''int8_from_mixed_bfloat16''"]
    get_dispatch [of sample_policy_env "keras_env ''float32''" _ _ "''uint8''"]
    get_dispatch [of sample_policy_env "keras_env ''float32''" _ _ "''mixed_float16''"]
    get_dispatch [of sample_policy_env "keras_env ''float32''" _ _ _ PyFloat "''float32''"]
    get_dispatch [of sample_policy_env "keras_env ''float32''" _ _ _ "PyObject 0"]
  show ?thesis by (simp add: sample_policy_env_def raised_def)
qed

section \<open>General facts about the least upper bound\<close>

lemma lookup_each_Inr_iff:
  "(\<exists>bounds. lookup_each UB N = Inr bounds) \<longleftrightarrow> (\<forall>n\<in>set N. map_of UB n \<noteq> None)"
  by (induction N) (auto split: option.splits sum.splits)

lemma lookup_each_Inr_map:
  "lookup_each UB N = Inr bounds \<Longrightarrow> bounds = map (\<lambda>n. the (map_of UB n)) N"
  by (induction N arbitrary: bounds) (auto split: option.splits sum.splits)

lemma lookup_each_Inl_find:
  "lookup_each UB N = Inl e \<Longrightarrow>
     \<exists>d. find (\<lambda>n. map_of UB n = None) N = Some d \<and> e = KeyError d"
  by (induction N) (auto split: option.splits sum.splits)

lemma set_intersection:
  "set (intersection b bs) = set b \<inter> (\<Inter>x\<in>set bs. set x)"
proof -
  have "set (fold (\<lambda>x acc. filter (\<lambda>c. c \<in> set x) acc) bs acc) = set acc \<inter> (\<Inter>x\<in>set bs. set x)"
    for acc
    by (induction bs arbitrary: acc) auto
  then show ?thesis by (simp add: intersection_def)
qed

lemma distinct_intersection: "distinct (intersection b bs)"
proof -
  have "distinct acc \<Longrightarrow> distinct (fold (\<lambda>x acc. filter (\<lambda>c. c \<in> set x) acc) bs acc)" for acc
    by (induction bs arbitrary: acc) auto
  then show ?thesis by (simp add: intersection_def)
qed

lemma candidates_Inr_iff:
  "(\<exists>r. candidates UB CUB cs = Inr r) \<longleftrightarrow> (\<forall>c\<in>set cs. map_of UB c \<noteq> None)"
  by (induction cs) (auto split: option.splits sum.splits)

lemma candidates_Inl:
  "candidates UB CUB cs = Inl e \<Longrightarrow> \<exists>c. e = KeyError c \<and> c \<in> set cs \<and> map_of UB c = None"
  by (induction cs) (auto split: option.splits sum.splits)

lemma UB_set_Some: "map_of UB c = Some ub \<Longrightarrow> UB_set UB c = set ub"
  by (simp add: UB_set_def)

lemma candidates_Inr:
  "candidates UB CUB cs = Inr r \<Longrightarrow>
     set r = {c \<in> set cs. set CUB \<subseteq> UB_set UB c} \<and> (distinct cs \<longrightarrow> distinct r)"
proof (induction cs arbitrary: r)
  case Nil
  then show ?case by simp
next
  case (Cons c cs)
  from Cons.prems obtain ubc r' where
    m: "map_of UB c = Some ubc" and r': "candidates UB CUB cs = Inr r'" and
    r: "r = (if set CUB \<subseteq> set ubc then c # r' else r')"
    by (auto split: option.splits sum.splits)
  from Cons.IH [OF r'] have
    ih: "set r' = {c \<in> set cs. set CUB \<subseteq> UB_set UB c}" "distinct cs \<longrightarrow> distinct r'"
    by simp_all
  from UB_set_Some [OF m] have u: "UB_set UB c = set ubc" .
  show ?case
  proof (cases "set CUB \<subseteq> set ubc")
    case True
    with r ih u show ?thesis by auto
  next
    case False
    with r ih u show ?thesis by auto
  qed
qed

text \<open>The common upper bounds computed for known nodes.\<close>

lemma CUB_known:
  assumes "lookup_each UB (remdups nodes) = Inr (b # bs)"
  shows "set (intersection b bs) = CUB_set UB (set nodes)"
proof -
  from lookup_each_Inr_map [OF assms]
  have m: "b # bs = map (\<lambda>n. the (map_of UB n)) (remdups nodes)" .
  from assms have k: "\<forall>n\<in>set nodes. map_of UB n \<noteq> None"
    using lookup_each_Inr_iff [of UB "remdups nodes"] by auto
  have "set b \<inter> (\<Inter>x\<in>set bs. set x) = (\<Inter>x\<in>set (b # bs). set x)" by simp
  also have "\<dots> = (\<Inter>n\<in>set nodes. set (the (map_of UB n)))" unfolding m by simp
  also have "\<dots> = CUB_set UB (set nodes)"
  proof -
    have "set (the (map_of UB n)) = UB_set UB n" if "n \<in> set nodes" for n
      using k that by (auto simp: UB_set_def)
    then show ?thesis by (simp add: CUB_set_def)
  qed
  finally show ?thesis by (simp add: set_intersection)
qed


lemma known_lookup:
  assumes "\<forall>n\<in>set nodes. map_of UB n \<noteq> None" and "nodes \<noteq> []"
  obtains b bs where "lookup_each UB (remdups nodes) = Inr (b # bs)"
proof -
  from assms(1) lookup_each_Inr_iff [of UB "remdups nodes"]
  obtain bounds where l: "lookup_each UB (remdups nodes) = Inr bounds" by auto
  from lookup_each_Inr_map [OF l] assms(2) have "bounds \<noteq> []" by auto
  then obtain b bs where "bounds = b # bs" by (cases bounds) auto
  with l that show thesis by blast
qed

text \<open>The set \<open>LUB\<close> of the source, as a set: the fast path when it is not empty, the
  candidates otherwise.\<close>

lemma least_upper_bound_on_LUB:
  assumes known: "\<forall>n\<in>set nodes. map_of UB n \<noteq> None" and ne: "nodes \<noteq> []"
    and ok: "CUB_set UB (set nodes) \<inter> set nodes \<noteq> {} \<or>
             (\<forall>c\<in>CUB_set UB (set nodes). map_of UB c \<noteq> None)"
  shows "\<exists>LUB. distinct LUB \<and>
           set LUB = (if CUB_set UB (set nodes) \<inter> set nodes \<noteq> {}
                      then CUB_set UB (set nodes) \<inter> set nodes
                      else candidate_set UB (set nodes)) \<and>
           least_upper_bound_on UB nodes =
             (case LUB of
                [c] \<Rightarrow> Inr c
              | [] \<Rightarrow> Inl (NoPromotionPath nodes)
              | _ \<Rightarrow> Inl (IllFormedLattice nodes LUB))"
proof -
  from known ne obtain b bs where l: "lookup_each UB (remdups nodes) = Inr (b # bs)"
    by (rule known_lookup)
  let ?CUB = "intersection b bs"
  let ?fast = "filter (\<lambda>c. c \<in> set (remdups nodes)) ?CUB"
  have C: "set ?CUB = CUB_set UB (set nodes)" by (rule CUB_known [OF l])
  have dC: "distinct ?CUB" by (rule distinct_intersection)
  have F: "set ?fast = CUB_set UB (set nodes) \<inter> set nodes" using C by auto
  show ?thesis
  proof (cases "?fast = []")
    case False
    then have "set ?fast \<noteq> {}" by (simp only: set_empty not_False_eq_True)
    with F have nonempty: "CUB_set UB (set nodes) \<inter> set nodes \<noteq> {}" by simp
    have "least_upper_bound_on UB nodes =
            (case ?fast of [c] \<Rightarrow> Inr c | [] \<Rightarrow> Inl (NoPromotionPath nodes)
             | _ \<Rightarrow> Inl (IllFormedLattice nodes ?fast))"
      using l False by (simp add: least_upper_bound_on_def Let_def cong: list.case_cong)
    moreover have "distinct ?fast" using dC by simp
    ultimately show ?thesis using F nonempty by (intro exI [of _ ?fast]) simp
  next
    case True
    then have "set ?fast = {}" by (simp only: set_empty)
    with F have empty: "CUB_set UB (set nodes) \<inter> set nodes = {}" by simp
    with ok C have "\<forall>c\<in>set ?CUB. map_of UB c \<noteq> None" by simp
    with candidates_Inr_iff [of UB ?CUB ?CUB]
    obtain r where r: "candidates UB ?CUB ?CUB = Inr r" by blast
    from candidates_Inr [OF r] dC C
    have sr: "set r = candidate_set UB (set nodes)" and dr: "distinct r"
      by (auto simp: candidate_set_def)
    have "least_upper_bound_on UB nodes =
            (case r of [c] \<Rightarrow> Inr c | [] \<Rightarrow> Inl (NoPromotionPath nodes)
             | _ \<Rightarrow> Inl (IllFormedLattice nodes r))"
      using l True r by (simp add: least_upper_bound_on_def Let_def cong: list.case_cong)
    with sr dr empty show ?thesis by (intro exI [of _ r]) simp
  qed
qed

lemma least_upper_bound_on_KeyError:
  assumes known: "\<forall>n\<in>set nodes. map_of UB n \<noteq> None" and ne: "nodes \<noteq> []"
    and empty: "CUB_set UB (set nodes) \<inter> set nodes = {}"
    and c: "\<exists>c\<in>CUB_set UB (set nodes). map_of UB c = None"
  shows "\<exists>c. least_upper_bound_on UB nodes = Inl (KeyError c)"
proof -
  from known ne obtain b bs where l: "lookup_each UB (remdups nodes) = Inr (b # bs)"
    by (rule known_lookup)
  let ?CUB = "intersection b bs"
  let ?fast = "filter (\<lambda>c. c \<in> set (remdups nodes)) ?CUB"
  have C: "set ?CUB = CUB_set UB (set nodes)" by (rule CUB_known [OF l])
  have "set ?fast = CUB_set UB (set nodes) \<inter> set nodes" using C by auto
  with empty have f: "?fast = []" by simp
  from c C candidates_Inr_iff [of UB ?CUB ?CUB]
  have "\<not> (\<exists>r. candidates UB ?CUB ?CUB = Inr r)" by auto
  then obtain e where e: "candidates UB ?CUB ?CUB = Inl e"
    by (cases "candidates UB ?CUB ?CUB") auto
  from candidates_Inl [OF e] obtain k where "e = KeyError k" by blast
  with l f e show ?thesis by (simp add: least_upper_bound_on_def Let_def)
qed

lemma least_upper_bound_on_unknown:
  assumes "\<exists>n\<in>set nodes. map_of UB n = None"
  shows "\<exists>d. find (\<lambda>n. map_of UB n = None) (remdups nodes) = Some d \<and>
             d \<in> set nodes \<and> map_of UB d = None \<and>
             least_upper_bound_on UB nodes = Inl (UnknownDtype d)"
proof -
  from assms lookup_each_Inr_iff [of UB "remdups nodes"]
  have "\<not> (\<exists>bounds. lookup_each UB (remdups nodes) = Inr bounds)" by auto
  then obtain e where e: "lookup_each UB (remdups nodes) = Inl e"
    by (cases "lookup_each UB (remdups nodes)") auto
  from lookup_each_Inl_find [OF e] obtain d where
    d: "find (\<lambda>n. map_of UB n = None) (remdups nodes) = Some d" by blast
  then have "d \<in> set nodes" "map_of UB d = None"
    by (auto simp: find_Some_iff) (metis nth_mem set_remdups)
  moreover from e d have "least_upper_bound_on UB nodes = Inl (UnknownDtype d)"
    by (simp add: least_upper_bound_on_def)
  ultimately show ?thesis using d by blast
qed

lemma least_upper_bound_on_Nil: "least_upper_bound_on UB [] = Inl TypeError"
  by (simp add: least_upper_bound_on_def)


lemma LUB_case_outcome:
  assumes "distinct L" "distinct L'" "set L = set L'"
  shows "outcome (case L of [c] \<Rightarrow> Inr c | [] \<Rightarrow> Inl (NoPromotionPath ns)
                  | _ \<Rightarrow> Inl (IllFormedLattice ns L)) =
         outcome (case L' of [c] \<Rightarrow> Inr c | [] \<Rightarrow> Inl (NoPromotionPath ns')
                  | _ \<Rightarrow> Inl (IllFormedLattice ns' L'))"
proof -
  from assms have len: "length L = length L'" by (metis distinct_card)
  show ?thesis
  proof (cases L)
    case Nil
    with len show ?thesis by (simp add: outcome_def)
  next
    case (Cons a L1)
    show ?thesis
    proof (cases L1)
      case Nil
      with Cons len obtain a' where "L' = [a']" by (cases L') auto
      with Cons Nil assms(3) show ?thesis by (simp add: outcome_def)
    next
      case (Cons b L2)
      with \<open>L = a # L1\<close> len obtain a' b' L2' where "L' = a' # b' # L2'"
        by (cases L'; cases "tl L'") auto
      with Cons \<open>L = a # L1\<close> show ?thesis by (simp add: outcome_def)
    qed
  qed
qed

lemma least_upper_bound_on_set_cong:
  assumes "set xs = set ys"
  shows "outcome (least_upper_bound_on UB xs) = outcome (least_upper_bound_on UB ys)"
proof (cases "\<exists>n\<in>set xs. map_of UB n = None")
  case True
  from least_upper_bound_on_unknown [OF True] obtain d where
    "least_upper_bound_on UB xs = Inl (UnknownDtype d)" by blast
  moreover from True assms have "\<exists>n\<in>set ys. map_of UB n = None" by simp
  from least_upper_bound_on_unknown [OF this] obtain d' where
    "least_upper_bound_on UB ys = Inl (UnknownDtype d')" by blast
  ultimately show ?thesis by (simp add: outcome_def)
next
  case False
  then have kx: "\<forall>n\<in>set xs. map_of UB n \<noteq> None" by simp
  with assms have ky: "\<forall>n\<in>set ys. map_of UB n \<noteq> None" by simp
  show ?thesis
  proof (cases "xs = []")
    case True
    with assms have "ys = []" by simp
    with True show ?thesis by simp
  next
    case nx: False
    with assms have ny: "ys \<noteq> []" by auto
    show ?thesis
    proof (cases "CUB_set UB (set xs) \<inter> set xs \<noteq> {} \<or>
                  (\<forall>c\<in>CUB_set UB (set xs). map_of UB c \<noteq> None)")
      case True
      from least_upper_bound_on_LUB [OF kx nx True] obtain L where
        L: "distinct L"
          "set L = (if CUB_set UB (set xs) \<inter> set xs \<noteq> {}
                    then CUB_set UB (set xs) \<inter> set xs else candidate_set UB (set xs))"
          "least_upper_bound_on UB xs =
             (case L of [c] \<Rightarrow> Inr c | [] \<Rightarrow> Inl (NoPromotionPath xs)
              | _ \<Rightarrow> Inl (IllFormedLattice xs L))" by blast
      from True assms have "CUB_set UB (set ys) \<inter> set ys \<noteq> {} \<or>
                  (\<forall>c\<in>CUB_set UB (set ys). map_of UB c \<noteq> None)" by simp
      from least_upper_bound_on_LUB [OF ky ny this] obtain L' where
        L': "distinct L'"
          "set L' = (if CUB_set UB (set ys) \<inter> set ys \<noteq> {}
                    then CUB_set UB (set ys) \<inter> set ys else candidate_set UB (set ys))"
          "least_upper_bound_on UB ys =
             (case L' of [c] \<Rightarrow> Inr c | [] \<Rightarrow> Inl (NoPromotionPath ys)
              | _ \<Rightarrow> Inl (IllFormedLattice ys L'))" by blast
      from L(2) L'(2) assms have "set L = set L'" by simp
      from LUB_case_outcome [OF L(1) L'(1) this] L(3) L'(3) show ?thesis by simp
    next
      case False
      then have e: "CUB_set UB (set xs) \<inter> set xs = {}"
        and c: "\<exists>c\<in>CUB_set UB (set xs). map_of UB c = None" by auto
      from least_upper_bound_on_KeyError [OF kx nx e c] obtain k where
        "least_upper_bound_on UB xs = Inl (KeyError k)" by blast
      moreover from e c assms have "CUB_set UB (set ys) \<inter> set ys = {}"
        "\<exists>c\<in>CUB_set UB (set ys). map_of UB c = None" by simp_all
      from least_upper_bound_on_KeyError [OF ky ny this] obtain k' where
        "least_upper_bound_on UB ys = Inl (KeyError k')" by blast
      ultimately show ?thesis by (simp add: outcome_def)
    qed
  qed
qed








section \<open>Permuting the inputs\<close>

lemma outcome_bind:
  assumes "outcome r = outcome r'"
  shows "outcome (case r of Inl e \<Rightarrow> Inl e | Inr x \<Rightarrow> g x) =
         outcome (case r' of Inl e \<Rightarrow> Inl e | Inr x \<Rightarrow> g x)"
  using assms by (cases r; cases r') (auto simp: outcome_def)

lemma collect_Inl_mem: "collect rs = Inl e \<Longrightarrow> Inl e \<in> set rs"
  by (induction rs) (auto split: sum.splits)

lemma collect_Inr_D: "collect rs = Inr xs \<Longrightarrow> rs = map Inr xs"
  by (induction rs arbitrary: xs) (auto split: sum.splits)

lemma collect_Inr_eq: "collect rs = Inr xs \<longleftrightarrow> rs = map Inr xs"
  using collect_Inr_D collect_map_Inr by blast

lemma collect_perm_Inr:
  assumes "mset rs = mset rs'" "collect rs = Inr xs"
  shows "\<exists>xs'. collect rs' = Inr xs' \<and> mset xs' = mset xs"
proof -
  from assms(2) have rs: "rs = map Inr xs" by (simp add: collect_Inr_eq)
  from assms(1) have "set rs' = set rs" by (metis set_mset_mset)
  with rs have "\<forall>r\<in>set rs'. \<exists>x. r = Inr x" by auto
  then have rs': "rs' = map Inr (map projr rs')"
    by (induction rs') auto
  then have c: "collect rs' = Inr (map projr rs')" by (metis collect_Inr_eq)
  have "mset (map projr rs') = image_mset projr (mset rs')" by simp
  also have "\<dots> = image_mset projr (mset rs)" using assms(1) by simp
  also have "\<dots> = mset xs" unfolding rs by (simp add: multiset.map_comp comp_def)
  finally show ?thesis using c by blast
qed

lemma collect_perm_Inl:
  assumes "mset rs = mset rs'" "collect rs = Inl e"
  shows "\<exists>e'. collect rs' = Inl e' \<and> Inl e' \<in> set rs"
proof (cases "collect rs'")
  case (Inl e')
  from collect_Inl_mem [OF Inl] assms(1) have "Inl e' \<in> set rs" by (metis set_mset_mset)
  with Inl show ?thesis by blast
next
  case (Inr xs')
  from collect_perm_Inr [OF assms(1) [symmetric] Inr] assms(2) show ?thesis by auto
qed

lemma least_upper_bound_set_cong:
  assumes "set xs = set ys"
  shows "outcome (least_upper_bound xs) = outcome (least_upper_bound ys)"
proof (cases LATTICE_UPPER_BOUNDS)
  case (Inl e)
  show ?thesis unfolding least_upper_bound_def Inl by simp
next
  case (Inr UB)
  from least_upper_bound_on_set_cong [OF assms, of UB] show ?thesis
    unfolding least_upper_bound_def Inr by simp
qed

lemma promote_single:
  "length pairs = 1 \<Longrightarrow> promote pairs = Inr (hd (map fst pairs), hd (map snd pairs))"
  by (simp add: promote_def)

lemma promote_trivial:
  "length pairs \<noteq> 1 \<Longrightarrow> length (remdups (map fst pairs)) = 1 \<Longrightarrow>
   \<not> list_all id (map snd pairs) \<Longrightarrow> promote pairs = Inr (hd (map fst pairs), False)"
  by (simp add: promote_def)

lemma promote_all_weak:
  "length pairs \<noteq> 1 \<Longrightarrow> list_all id (map snd pairs) \<Longrightarrow>
   promote pairs =
     (case least_upper_bound (remdups (map fst pairs)) of
        Inl e \<Rightarrow> Inl e | Inr out_dtype \<Rightarrow> Inr (out_dtype, True))"
  by (simp add: promote_def collect_respect_False_comp)

lemma promote_mixed:
  "length pairs \<noteq> 1 \<Longrightarrow> \<not> list_all id (map snd pairs) \<Longrightarrow>
   length (remdups (map fst pairs)) \<noteq> 1 \<Longrightarrow>
   promote pairs =
     (case collect (map (\<lambda>(d, w). respect_weak_type d w) pairs) of
        Inl e \<Rightarrow> Inl e
      | Inr ns \<Rightarrow>
          (case least_upper_bound (remdups ns) of
             Inl e \<Rightarrow> Inl e
           | Inr out_dtype \<Rightarrow> Inr (out_dtype, out_dtype \<in> set WEAK_TYPES)))"
  by (simp add: promote_def)

lemma hd_of_singleton_set: "set xs = {d} \<Longrightarrow> hd xs = d"
  by (cases xs) auto

lemma promote_perm:
  assumes "mset pairs = mset pairs'"
  shows "outcome (promote pairs) = outcome (promote pairs')"
proof -
  from assms have len: "length pairs = length pairs'" by (rule mset_eq_length)
  from assms have md: "mset (map fst pairs) = mset (map fst pairs')"
    and mw: "mset (map snd pairs) = mset (map snd pairs')" by simp_all
  from md have sd: "set (map fst pairs) = set (map fst pairs')" by (rule mset_eq_setD)
  from mw have sw: "set (map snd pairs) = set (map snd pairs')" by (rule mset_eq_setD)
  have aw: "list_all id (map snd pairs) = list_all id (map snd pairs')"
    unfolding list_all_iff sw ..
  have rd: "length (remdups (map fst pairs)) = length (remdups (map fst pairs'))"
    unfolding length_remdups_card_conv sd ..
  show ?thesis
  proof (cases "length pairs = 1")
    case True
    then obtain x where x: "pairs = [x]" by (cases pairs) auto
    with assms have "pairs' = [x]" by simp
    with x show ?thesis by simp
  next
    case n1: False
    with len have n1': "length pairs' \<noteq> 1" by simp
    show ?thesis
    proof (cases "list_all id (map snd pairs)")
      case True
      with aw have w': "list_all id (map snd pairs')" by simp
      have "outcome (least_upper_bound (remdups (map fst pairs))) =
            outcome (least_upper_bound (remdups (map fst pairs')))"
        by (rule least_upper_bound_set_cong) (simp only: set_remdups sd)
      then show ?thesis
        unfolding promote_all_weak [OF n1 True] promote_all_weak [OF n1' w']
        by (rule outcome_bind)
    next
      case nw: False
      with aw have nw': "\<not> list_all id (map snd pairs')" by simp
      show ?thesis
      proof (cases "length (remdups (map fst pairs)) = 1")
        case True
        with rd have t': "length (remdups (map fst pairs')) = 1" by simp
        from True have "card (set (map fst pairs)) = 1"
          by (simp only: length_remdups_card_conv)
        then obtain d where d: "set (map fst pairs) = {d}"
          by (auto simp: card_1_singleton_iff)
        with sd have d': "set (map fst pairs') = {d}" by simp
        from hd_of_singleton_set [OF d] hd_of_singleton_set [OF d']
        show ?thesis
          unfolding promote_trivial [OF n1 True nw] promote_trivial [OF n1' t' nw']
          by simp
      next
        case nt: False
        with rd have nt': "length (remdups (map fst pairs')) \<noteq> 1" by simp
        let ?rs = "map (\<lambda>(d, w). respect_weak_type d w) pairs"
        let ?rs' = "map (\<lambda>(d, w). respect_weak_type d w) pairs'"
        let ?g = "\<lambda>ns. case least_upper_bound (remdups ns) of
                     Inl e \<Rightarrow> Inl e
                   | Inr out_dtype \<Rightarrow> Inr (out_dtype, out_dtype \<in> set WEAK_TYPES)"
        note p = promote_mixed [OF n1 nw nt]
        note p' = promote_mixed [OF n1' nw' nt']
        from assms have m: "mset ?rs = mset ?rs'" by simp
        have inv: "\<exists>d. e = InvalidDtype d" if "Inl e \<in> set ?rs" for e
          using that by (auto simp: respect_weak_type_def split: if_splits)
        show ?thesis
        proof (cases "collect ?rs")
          case (Inl e)
          from collect_perm_Inl [OF m Inl] obtain e' where
            e': "collect ?rs' = Inl e'" "Inl e' \<in> set ?rs" by blast
          from inv [OF collect_Inl_mem [OF Inl]] inv [OF e'(2)]
          show ?thesis unfolding p p' Inl e'(1) by (auto simp: outcome_def)
        next
          case (Inr ns)
          from collect_perm_Inr [OF m Inr] obtain ns' where
            ns': "collect ?rs' = Inr ns'" "mset ns' = mset ns" by blast
          from ns'(2) have "set ns = set ns'" by (metis mset_eq_setD)
          then have "set (remdups ns) = set (remdups ns')" by simp
          then have "outcome (least_upper_bound (remdups ns)) =
                     outcome (least_upper_bound (remdups ns'))"
            by (rule least_upper_bound_set_cong)
          then have "outcome (?g ns) = outcome (?g ns')" by (rule outcome_bind)
          then show ?thesis unfolding p p' Inr ns'(1) by simp
        qed
      qed
    qed
  qed
qed

lemma lattice_result_type_perm:
  assumes "mset args = mset args'"
  shows "outcome (lattice_result_type env args) = outcome (lattice_result_type env args')"
proof -
  let ?rs = "map (dtype_and_weaktype env) args"
  let ?rs' = "map (dtype_and_weaktype env) args'"
  from assms have m: "mset ?rs = mset ?rs'" by simp
  have std: "\<exists>v. e = StandardizeError v" if "Inl e \<in> set ?rs" for e
    using that by (auto simp: dtype_and_weaktype_def split: option.splits)
  show ?thesis
  proof (cases "collect ?rs")
    case (Inl e)
    from collect_perm_Inl [OF m Inl] obtain e' where
      e': "collect ?rs' = Inl e'" "Inl e' \<in> set ?rs" by blast
    from std [OF collect_Inl_mem [OF Inl]] std [OF e'(2)] Inl e'(1)
    show ?thesis by (auto simp: lattice_result_type_def outcome_def)
  next
    case (Inr pairs)
    from collect_perm_Inr [OF m Inr] obtain pairs' where
      p': "collect ?rs' = Inr pairs'" "mset pairs' = mset pairs" by blast
    from p'(2) have e: "(pairs = []) = (pairs' = [])" by (metis mset_zero_iff)
    let ?g = "\<lambda>(out_dtype, w).
                 (let out_weak_type = (out_dtype \<noteq> ''bool'' \<and> w);
                      precision = drop (length (floatx env) - 2) (floatx env)
                  in if out_weak_type then resolve_weak_type env out_dtype precision
                     else Inr out_dtype)"
    from promote_perm [OF p'(2)]
    have "outcome (case promote pairs of Inl e \<Rightarrow> Inl e | Inr x \<Rightarrow> ?g x) =
          outcome (case promote pairs' of Inl e \<Rightarrow> Inl e | Inr x \<Rightarrow> ?g x)"
      by (intro outcome_bind) simp
    with Inr p'(1) e show ?thesis by (simp add: lattice_result_type_def)
  qed
qed

lemma result_type_perm:
  assumes "mset args = mset args'"
  shows "outcome (result_type env args) = outcome (result_type env args')"
proof -
  from assms have len: "length args = length args'" by (rule mset_eq_length)
  from assms have
    "mset (map (\<lambda>arg. if arg = PyNone then PyStr (floatx env) else arg) args) =
     mset (map (\<lambda>arg. if arg = PyNone then PyStr (floatx env) else arg) args')"
    by simp
  from lattice_result_type_perm [OF this, of env] len show ?thesis
    by (simp add: result_type_def)
qed


section \<open>The production table\<close>

lemma filter_eq_singleton: "distinct xs \<Longrightarrow> n \<in> set xs \<Longrightarrow> filter (\<lambda>c. c = n) xs = [n]"
  by (induction xs) (auto simp: filter_empty_conv)

lemma least_upper_bound_on_singleton:
  assumes "map_of UB n = Some ub" "n \<in> set ub"
  shows "least_upper_bound_on UB [n] = Inr n"
proof -
  have "filter (\<lambda>c. c = n) (remdups ub) = [n]"
    using assms(2) by (intro filter_eq_singleton) simp_all
  with assms(1) show ?thesis
    by (simp add: least_upper_bound_on_def intersection_def)
qed

lemma least_upper_bound_vocabulary:
  assumes "n \<in> set (BOOL_TYPES @ INT_TYPES @ FLOAT_TYPES @ COMPLEX_TYPES @ WEAK_TYPES)"
  shows "least_upper_bound [n] = Inr n"
proof -
  from LATTICE_UPPER_BOUNDS_wellformed obtain UB where
    UB: "LATTICE_UPPER_BOUNDS = Inr UB" and
    r: "list_all (\<lambda>(n, ub). n \<in> set ub) UB" and
    k: "set (map fst UB) =
         set (BOOL_TYPES @ INT_TYPES @ FLOAT_TYPES @ COMPLEX_TYPES @ WEAK_TYPES)"
    by (auto split: sum.splits)
  from assms k have "n \<in> fst ` set UB" by simp
  then obtain ub where ub: "map_of UB n = Some ub"
    by (metis map_of_eq_None_iff not_Some_eq)
  then have "(n, ub) \<in> set UB" by (rule map_of_SomeD)
  with r have "n \<in> set ub" by (auto simp: list_all_iff)
  from least_upper_bound_on_singleton [OF ub this] show ?thesis
    unfolding least_upper_bound_def UB by simp
qed

text \<open>
  C5. For every node \<open>n\<close> of the vocabulary (the concrete dtype names and the three weak
  categories) the least upper bound of \<open>n\<close> alone is \<open>n\<close>. The least upper bound depends
  only on the set of its arguments, and \<open>result_type\<close> only on the multiset of its
  arguments: permuting them changes neither the result nor which error is raised (the
  payload of the error, which lists the arguments in the order given, apart).
\<close>

theorem least_upper_bound_commutative:
  "(\<forall>n\<in>set (BOOL_TYPES @ INT_TYPES @ FLOAT_TYPES @ COMPLEX_TYPES @ WEAK_TYPES).
      least_upper_bound [n] = Inr n) \<and>
   (set xs = set ys \<longrightarrow> outcome (least_upper_bound xs) = outcome (least_upper_bound ys)) \<and>
   (mset args = mset args' \<longrightarrow>
      outcome (result_type env args) = outcome (result_type env args'))"
  using least_upper_bound_vocabulary least_upper_bound_set_cong result_type_perm by blast

theorem least_upper_bound_commutative_witness:
  "least_upper_bound [''float''] = Inr ''float'' \<and>
   least_upper_bound [''float64'', ''int64''] = Inr ''float64'' \<and>
   result_type (keras_env ''float32'') [PyInt, PyStr ''bool''] = Inr ''int32'' \<and>
   result_type (keras_env ''float32'') [PyStr ''bool'', PyInt] = Inr ''int32'' \<and>
   outcome (result_type (keras_env ''float32'') [PyStr ''int8'', PyObject 0]) =
   outcome (result_type (keras_env ''float32'') [PyObject 0, PyStr ''int8''])"
proof -
  note t = least_upper_bound_commutative
  have 1: "least_upper_bound [''float''] = Inr ''float''"
    using t [of "[]" "[]" "[]" "[]"] by (simp add: WEAK_TYPES_def)
  have "outcome (least_upper_bound [''float64'', ''int64'']) =
        outcome (least_upper_bound [''int64'', ''float64''])"
    using t [of "[''float64'', ''int64'']" "[''int64'', ''float64'']" "[]" "[]"] by auto
  then have 2: "least_upper_bound [''float64'', ''int64''] = Inr ''float64''"
    by (simp add: lub_evals outcome_def split: sum.splits)
  have l: "least_upper_bound [''int'', ''bool''] = Inr ''int''"
    by (simp add: lub_eval)
  have 3: "result_type (keras_env ''float32'') [PyInt, PyStr ''bool''] = Inr ''int32''"
    by (simp add: result_type_def lattice_result_type_def dtype_and_weaktype_def promote_def
        keras_env_def keras_standardize_dtype_def respect_weak_type_def l
        resolve_weak_type_def BOOL_TYPES_def INT_TYPES_def FLOAT_TYPES_def COMPLEX_TYPES_def
        WEAK_TYPES_def)
  have "outcome (result_type (keras_env ''float32'') [PyStr ''bool'', PyInt]) =
        outcome (result_type (keras_env ''float32'') [PyInt, PyStr ''bool''])"
    using t [of "[]" "[]" "[PyStr ''bool'', PyInt]" "[PyInt, PyStr ''bool'']"] by simp
  with 3 have 4: "result_type (keras_env ''float32'') [PyStr ''bool'', PyInt] = Inr ''int32''"
    by (simp add: outcome_def split: sum.splits)
  have 5: "outcome (result_type (keras_env ''float32'') [PyStr ''int8'', PyObject 0]) =
           outcome (result_type (keras_env ''float32'') [PyObject 0, PyStr ''int8''])"
    using t [of "[]" "[]" "[PyStr ''int8'', PyObject 0]" "[PyObject 0, PyStr ''int8'']"]
    by simp
  from 1 2 3 4 5 show ?thesis by simp
qed

section \<open>The result is a concrete dtype\<close>

lemma least_upper_bound_on_Inr_CUB:
  assumes "least_upper_bound_on UB nodes = Inr d"
  shows "d \<in> CUB_set UB (set nodes) \<and> nodes \<noteq> []"
proof -
  have known: "\<forall>n\<in>set nodes. map_of UB n \<noteq> None"
  proof (rule ccontr)
    assume "\<not> (\<forall>n\<in>set nodes. map_of UB n \<noteq> None)"
    then have "\<exists>n\<in>set nodes. map_of UB n = None" by simp
    from least_upper_bound_on_unknown [OF this] assms show False by auto
  qed
  have ne: "nodes \<noteq> []"
    using least_upper_bound_on_Nil [of UB] assms by auto
  have ok: "CUB_set UB (set nodes) \<inter> set nodes \<noteq> {} \<or>
            (\<forall>c\<in>CUB_set UB (set nodes). map_of UB c \<noteq> None)"
  proof (rule ccontr)
    assume "\<not> ?thesis"
    then have "CUB_set UB (set nodes) \<inter> set nodes = {}"
      "\<exists>c\<in>CUB_set UB (set nodes). map_of UB c = None" by simp_all
    from least_upper_bound_on_KeyError [OF known ne this] assms show False by auto
  qed
  from least_upper_bound_on_LUB [OF known ne ok] obtain L where
    L: "set L = (if CUB_set UB (set nodes) \<inter> set nodes \<noteq> {}
                 then CUB_set UB (set nodes) \<inter> set nodes else candidate_set UB (set nodes))"
       "least_upper_bound_on UB nodes =
          (case L of [c] \<Rightarrow> Inr c | [] \<Rightarrow> Inl (NoPromotionPath nodes)
           | _ \<Rightarrow> Inl (IllFormedLattice nodes L))" by blast
  from L(2) assms have "L = [d]" by (auto split: list.splits)
  with L(1) have "d \<in> CUB_set UB (set nodes)"
    by (auto simp: candidate_set_def split: if_splits)
  with ne show ?thesis by simp
qed

lemma least_upper_bound_Inr_vocabulary:
  assumes "least_upper_bound nodes = Inr d"
  shows "d \<in> set (BOOL_TYPES @ INT_TYPES @ FLOAT_TYPES @ COMPLEX_TYPES @ WEAK_TYPES)"
proof -
  from LATTICE_UPPER_BOUNDS_wellformed obtain UB where
    UB: "LATTICE_UPPER_BOUNDS = Inr UB" and c: "closed_table UB" and
    k: "set (map fst UB) =
         set (BOOL_TYPES @ INT_TYPES @ FLOAT_TYPES @ COMPLEX_TYPES @ WEAK_TYPES)"
    by (auto split: sum.splits)
  from assms have "least_upper_bound_on UB nodes = Inr d"
    unfolding least_upper_bound_def UB by simp
  from least_upper_bound_on_Inr_CUB [OF this] obtain n where
    "n \<in> set nodes" "d \<in> UB_set UB n" by (cases nodes) (auto simp: CUB_set_def)
  then obtain ub where ub: "map_of UB n = Some ub" "d \<in> set ub"
    by (auto simp: UB_set_def split: option.splits)
  from ub(1) have "(n, ub) \<in> set UB" by (rule map_of_SomeD)
  with ub(2) have "d \<in> \<Union> (set ` snd ` set UB)" by force
  with c have "d \<in> fst ` set UB" by (auto simp: closed_table_def)
  with k show ?thesis by simp
qed

lemma promote_Inr:
  assumes "promote pairs = Inr (d, w)" "pairs \<noteq> []"
  shows "(d \<in> set (map fst pairs) \<and> (length pairs = 1 \<or> \<not> w)) \<or>
         ((\<exists>ns. least_upper_bound ns = Inr d) \<and> (w \<or> d \<notin> set WEAK_TYPES) \<and>
          length pairs \<noteq> 1)"
proof (cases "length pairs = 1")
  case True
  from assms(2) have "hd (map fst pairs) \<in> set (map fst pairs)" by (cases pairs) auto
  with assms(1) True show ?thesis unfolding promote_single [OF True] by simp
next
  case n1: False
  show ?thesis
  proof (cases "list_all id (map snd pairs)")
    case True
    with assms(1) n1 show ?thesis
      unfolding promote_all_weak [OF n1 True] by (auto split: sum.splits)
  next
    case nw: False
    show ?thesis
    proof (cases "length (remdups (map fst pairs)) = 1")
      case True
      from assms(2) have "hd (map fst pairs) \<in> set (map fst pairs)" by (cases pairs) auto
      with assms(1) show ?thesis unfolding promote_trivial [OF n1 True nw] by simp
    next
      case False
      with assms(1) n1 show ?thesis
        unfolding promote_mixed [OF n1 nw False] by (auto split: sum.splits)
    qed
  qed
qed

lemma resolve_weak_type_Inr:
  assumes "resolve_weak_type env d p = Inr r"
  shows "r \<in> set (BOOL_TYPES @ INT_TYPES @ FLOAT_TYPES) \<and> r \<notin> set WEAK_TYPES"
proof -
  from assms have "p \<in> set [''16'', ''32'', ''64'']"
    by (auto simp: resolve_weak_type_def split: if_splits)
  moreover from assms have "r = ''bool'' \<or> r = ''int'' @ p \<or> r = ''uint'' @ p \<or> r = ''float'' @ p"
    by (auto simp: resolve_weak_type_def Let_def split: if_splits)
  ultimately show ?thesis
    by (auto simp: BOOL_TYPES_def INT_TYPES_def FLOAT_TYPES_def WEAK_TYPES_def)
qed

lemma promote_Nil: "promote [] = Inl TypeError"
proof -
  from LATTICE_UPPER_BOUNDS_wellformed obtain UB where UB: "LATTICE_UPPER_BOUNDS = Inr UB"
    by (auto split: sum.splits)
  have "least_upper_bound [] = Inl TypeError"
    unfolding least_upper_bound_def UB by (simp add: least_upper_bound_on_Nil)
  then show ?thesis by (simp add: promote_def)
qed

text \<open>
  C10. In a backend whose \<open>standardize_dtype\<close> returns allowed dtype names only, whose
  allowed dtype names include the default float dtype and none of the weak categories
  \<open>int\<close>, \<open>float\<close>, \<open>complex\<close>: whenever \<open>result_type\<close> returns, the value is not a
  weak category, and it is an allowed dtype name or a concrete name of the vocabulary.
  Whenever the promoted dtype is a weak category, the weak flag is set and the result is
  that category resolved at the precision of the default float dtype. Resolving
  \<open>bfloat16\<close> gives \<open>float\<close> followed by the precision, not \<open>bool\<close>.
\<close>

theorem result_type_concrete:
  assumes std: "\<forall>v d. standardize_dtype env v = Some d \<longrightarrow> d \<in> set (ALLOWED_DTYPES env)"
    and dis: "set (ALLOWED_DTYPES env) \<inter> set WEAK_TYPES = {}"
    and fx: "floatx env \<in> set (ALLOWED_DTYPES env)"
  shows "(result_type env args = Inr r \<longrightarrow>
            r \<notin> set WEAK_TYPES \<and>
            r \<in> set (ALLOWED_DTYPES env) \<union>
                set (BOOL_TYPES @ INT_TYPES @ FLOAT_TYPES @ COMPLEX_TYPES)) \<and>
         (collect (map (dtype_and_weaktype env) args) = Inr pairs \<and>
          promote pairs = Inr (d, w) \<and> d \<in> set WEAK_TYPES \<longrightarrow>
            w \<and> lattice_result_type env args =
                  resolve_weak_type env d (drop (length (floatx env) - 2) (floatx env))) \<and>
         (''bfloat16'' \<in> set (ALLOWED_DTYPES env) \<and> p \<in> set [''16'', ''32'', ''64''] \<longrightarrow>
            resolve_weak_type env ''bfloat16'' p = Inr (''float'' @ p))"
proof (intro conjI impI)
  have dtypes: "set (map fst ps) \<subseteq> set (ALLOWED_DTYPES env)"
    if "collect (map (dtype_and_weaktype env) xs) = Inr ps" for xs ps
  proof
    fix x assume "x \<in> set (map fst ps)"
    then have "Some x \<in> set (map (Some \<circ> fst) ps)" by auto
    with collect_dtype_and_weaktype [OF that]
    have "Some x \<in> set (map (standardize_dtype env) xs)" by simp
    then obtain v where "standardize_dtype env v = Some x" by auto
    with std show "x \<in> set (ALLOWED_DTYPES env)" by blast
  qed
  have lrt: "r' \<notin> set WEAK_TYPES \<and>
             r' \<in> set (ALLOWED_DTYPES env) \<union>
                  set (BOOL_TYPES @ INT_TYPES @ FLOAT_TYPES @ COMPLEX_TYPES)"
    if l: "lattice_result_type env xs = Inr r'" for xs r'
  proof -
    from l obtain ps where ps: "collect (map (dtype_and_weaktype env) xs) = Inr ps"
      by (auto simp: lattice_result_type_def split: sum.splits)
    with l have ne: "ps \<noteq> []"
      by (auto simp: lattice_result_type_def split: if_splits)
    with l ps obtain d' w' where pr: "promote ps = Inr (d', w')"
      by (auto simp: lattice_result_type_def split: sum.splits)
    show ?thesis
    proof (cases "d' \<noteq> ''bool'' \<and> w'")
      case True
      with l ps ne pr have
        "resolve_weak_type env d' (drop (length (floatx env) - 2) (floatx env)) = Inr r'"
        by (simp add: lattice_result_type_def)
      from resolve_weak_type_Inr [OF this] show ?thesis by auto
    next
      case False
      with l ps ne pr have r': "r' = d'" by (auto simp: lattice_result_type_def)
      from promote_Inr [OF pr ne] show ?thesis
      proof
        assume "d' \<in> set (map fst ps) \<and> (length ps = 1 \<or> \<not> w')"
        with dtypes [OF ps] have "d' \<in> set (ALLOWED_DTYPES env)" by auto
        with dis r' show ?thesis by auto
      next
        assume a: "(\<exists>ns. least_upper_bound ns = Inr d') \<and> (w' \<or> d' \<notin> set WEAK_TYPES) \<and>
                   length ps \<noteq> 1"
        then obtain ns where "least_upper_bound ns = Inr d'" by blast
        from least_upper_bound_Inr_vocabulary [OF this]
        have v: "d' \<in> set (BOOL_TYPES @ INT_TYPES @ FLOAT_TYPES @ COMPLEX_TYPES @ WEAK_TYPES)" .
        from False a have "d' = ''bool'' \<or> d' \<notin> set WEAK_TYPES" by auto
        then have "d' \<notin> set WEAK_TYPES" by (auto simp: WEAK_TYPES_def)
        with v r' show ?thesis by auto
      qed
    qed
  qed
  {
    assume rt: "result_type env args = Inr r"
    have "(args = [] \<and> r = floatx env) \<or>
          lattice_result_type env
           (map (\<lambda>arg. if arg = PyNone then PyStr (floatx env) else arg) args) = Inr r"
    proof (cases "args = []")
      case True
      with rt show ?thesis unfolding result_type_def by simp
    next
      case False
      with rt show ?thesis unfolding result_type_def by simp
    qed
    then consider "args = []" "r = floatx env"
      | "lattice_result_type env
           (map (\<lambda>arg. if arg = PyNone then PyStr (floatx env) else arg) args) = Inr r"
      by blast
    then have "r \<notin> set WEAK_TYPES \<and>
               r \<in> set (ALLOWED_DTYPES env) \<union>
                   set (BOOL_TYPES @ INT_TYPES @ FLOAT_TYPES @ COMPLEX_TYPES)"
    proof cases
      case 1
      with fx dis show ?thesis by auto
    next
      case 2
      then show ?thesis by (rule lrt)
    qed
    then show "r \<notin> set WEAK_TYPES"
      and "r \<in> set (ALLOWED_DTYPES env) \<union>
               set (BOOL_TYPES @ INT_TYPES @ FLOAT_TYPES @ COMPLEX_TYPES)" by simp_all
  }
  {
    assume a: "collect (map (dtype_and_weaktype env) args) = Inr pairs \<and>
          promote pairs = Inr (d, w) \<and> d \<in> set WEAK_TYPES"
    then have ne: "pairs \<noteq> []" using promote_Nil by auto
    from a dtypes [of args pairs] dis have nd: "d \<notin> set (map fst pairs)" by auto
    from a promote_Inr [of pairs d w] ne nd show w: "w" by auto
    from a have nb: "d \<noteq> ''bool''" by (auto simp: WEAK_TYPES_def)
    from a have c: "collect (map (dtype_and_weaktype env) args) = Inr pairs"
      and pr: "promote pairs = Inr (d, w)" by simp_all
    show "lattice_result_type env args =
        resolve_weak_type env d (drop (length (floatx env) - 2) (floatx env))"
      unfolding lattice_result_type_def c using ne w nb pr by simp
  }
  {
    assume "''bfloat16'' \<in> set (ALLOWED_DTYPES env) \<and> p \<in> set [''16'', ''32'', ''64'']"
    then show "resolve_weak_type env ''bfloat16'' p = Inr (''float'' @ p)"
      by (auto simp: resolve_weak_type_def)
  }
qed

theorem result_type_concrete_witness:
  "result_type (keras_env ''float32'') [PyStr ''uint64'', PyStr ''int8''] = Inr ''float32'' \<and>
   ''float32'' \<notin> set WEAK_TYPES \<and>
   promote [(''uint64'', False), (''int8'', False)] = Inr (''float'', True) \<and>
   resolve_weak_type (keras_env ''float32'') ''bfloat16'' ''32'' = Inr ''float32''"
proof -
  let ?env = "keras_env ''float32''"
  have e: "\<forall>v d. standardize_dtype ?env v = Some d \<longrightarrow> d \<in> set (ALLOWED_DTYPES ?env)"
    "set (ALLOWED_DTYPES ?env) \<inter> set WEAK_TYPES = {}"
    "floatx ?env \<in> set (ALLOWED_DTYPES ?env)"
    by (auto simp: keras_env_def keras_standardize_dtype_def BOOL_TYPES_def INT_TYPES_def
        FLOAT_TYPES_def COMPLEX_TYPES_def WEAK_TYPES_def split: pyvalue.splits if_splits)
  note t = result_type_concrete [OF e]
  have l: "least_upper_bound [''uint64'', ''int8''] = Inr ''float''"
    by (simp add: lub_eval)
  have pr: "promote [(''uint64'', False), (''int8'', False)] = Inr (''float'', True)"
    by (simp add: promote_def respect_weak_type_def l WEAK_TYPES_def)
  have c: "collect (map (dtype_and_weaktype ?env) [PyStr ''uint64'', PyStr ''int8''])
            = Inr [(''uint64'', False), (''int8'', False)]"
    by (simp add: dtype_and_weaktype_def keras_env_def keras_standardize_dtype_def
        BOOL_TYPES_def INT_TYPES_def FLOAT_TYPES_def COMPLEX_TYPES_def)
  have a: "''bfloat16'' \<in> set (ALLOWED_DTYPES ?env)"
    by (simp add: keras_env_def FLOAT_TYPES_def)
  have fx: "floatx ?env = ''float32''" by (simp add: keras_env_def)
  have r: "resolve_weak_type ?env ''bfloat16'' ''32'' = Inr ''float32''"
    using t [of _ _ _ _ _ "''32''"] a by simp
  have w: "''float'' \<in> set WEAK_TYPES" by (simp add: WEAK_TYPES_def)
  from t [of "[PyStr ''uint64'', PyStr ''int8'']" _
      "[(''uint64'', False), (''int8'', False)]" "''float''" True] c pr w
  have "lattice_result_type ?env [PyStr ''uint64'', PyStr ''int8''] =
          resolve_weak_type ?env ''float'' ''32''" by (simp add: fx)
  also have "\<dots> = Inr ''float32''"
    by (simp add: resolve_weak_type_def WEAK_TYPES_def)
  finally have 1: "result_type ?env [PyStr ''uint64'', PyStr ''int8''] = Inr ''float32''"
    by (simp add: result_type_def)
  from t [of "[PyStr ''uint64'', PyStr ''int8'']" "''float32''"] 1
  have 2: "''float32'' \<notin> set WEAK_TYPES" by simp
  from 1 2 pr r show ?thesis by simp
qed

section \<open>The closure builder\<close>

lemma edges_targets: "(n, m) \<in> edges L \<Longrightarrow> n \<in> fst ` set L \<and> m \<in> targets L"
proof -
  assume "(n, m) \<in> edges L"
  then obtain ms where ms: "map_of L n = Some ms" "m \<in> set ms" by (auto simp: edges_def)
  from ms(1) have "(n, ms) \<in> set L" by (rule map_of_SomeD)
  with ms(2) show ?thesis by (force simp: targets_def)
qed

lemma lookup_each_edges:
  "lookup_each L ub = Inr ls \<Longrightarrow> set (concat ls) = edges L `` set ub"
proof (induction ub arbitrary: ls)
  case Nil
  then show ?case by simp
next
  case (Cons b bs)
  from Cons.prems obtain ms r where
    m: "map_of L b = Some ms" and r: "lookup_each L bs = Inr r" and ls: "ls = ms # r"
    by (auto split: option.splits sum.splits)
  from m have "edges L `` {b} = set ms" by (auto simp: edges_def)
  with Cons.IH [OF r] ls show ?case by auto
qed

lemma reach_keys:
  assumes "targets L \<subseteq> fst ` set L" "n \<in> fst ` set L" "(n, m) \<in> (edges L)\<^sup>*"
  shows "m \<in> fst ` set L"
  using assms(3,1,2) by (induction rule: rtrancl_induct) (auto dest: edges_targets)

lemma upper_bounds_loop_correct:
  assumes "targets L \<subseteq> fst ` set L" "n \<in> fst ` set L"
    "n \<in> set ub" "set ub \<subseteq> (edges L)\<^sup>* `` {n}"
  shows "if (n, n) \<in> (edges L)\<^sup>+
         then upper_bounds_loop L n ub = Inl (CycleDetected n)
         else (\<exists>ub'. upper_bounds_loop L n ub = Inr ub' \<and> set ub' = (edges L)\<^sup>* `` {n})"
  using assms
proof (induction L n ub rule: upper_bounds_loop.induct)
  case (1 lattice n ub)
  let ?E = "edges lattice"
  from "1.prems" have keys: "\<forall>b\<in>set ub. map_of lattice b \<noteq> None"
    by (auto simp: map_of_eq_None_iff dest: reach_keys)
  with lookup_each_Inr_iff [of lattice ub] obtain ls where
    ls: "lookup_each lattice ub = Inr ls" by blast
  define new where "new = remdups (concat ls)"
  from lookup_each_edges [OF ls] have new: "set new = ?E `` set ub" by (simp add: new_def)
  have new_reach: "set new \<subseteq> ?E\<^sup>* `` {n}"
    using new "1.prems"(4) by (auto intro: rtrancl_into_rtrancl)
  show ?case
  proof (cases "n \<in> set new")
    case True
    with new obtain b where b: "b \<in> set ub" "(b, n) \<in> ?E" by auto
    with "1.prems"(4) have "(n, b) \<in> ?E\<^sup>*" by auto
    with b(2) have cyc: "(n, n) \<in> ?E\<^sup>+" by (auto intro: rtrancl_into_trancl1)
    from ls True have "upper_bounds_loop lattice n ub = Inl (CycleDetected n)"
      by (simp add: upper_bounds_loop.simps [of lattice n ub] new_def)
    with cyc show ?thesis by simp
  next
    case nn: False
    show ?thesis
    proof (cases "set new \<subseteq> set ub")
      case True
      from ls nn True have res: "upper_bounds_loop lattice n ub = Inr ub"
        by (simp add: upper_bounds_loop.simps [of lattice n ub] new_def)
      have closed: "m \<in> set ub" if "(n, m) \<in> ?E\<^sup>*" for m
        using that
      proof (induction rule: rtrancl_induct)
        case base
        from "1.prems"(3) show ?case .
      next
        case (step y z)
        then have "z \<in> ?E `` set ub" by auto
        with new True show ?case by auto
      qed
      with "1.prems"(4) have eq: "set ub = ?E\<^sup>* `` {n}" by auto
      have "(n, n) \<notin> ?E\<^sup>+"
      proof
        assume "(n, n) \<in> ?E\<^sup>+"
        then obtain b where "(n, b) \<in> ?E\<^sup>*" "(b, n) \<in> ?E" by (auto dest: tranclD2)
        with closed have "n \<in> ?E `` set ub" by auto
        with new nn show False by simp
      qed
      with res eq show ?thesis by simp
    next
      case False
      let ?ub' = "ub @ filter (\<lambda>x. x \<notin> set ub) new"
      from ls nn False have res:
        "upper_bounds_loop lattice n ub = upper_bounds_loop lattice n ?ub'"
        by (simp add: upper_bounds_loop.simps [of lattice n ub] new_def)
      have "n \<in> set ?ub'" using "1.prems"(3) by simp
      moreover have "set ?ub' \<subseteq> ?E\<^sup>* `` {n}"
        using "1.prems"(4) new_reach by auto
      ultimately show ?thesis
        using "1.IH" [OF ls new_def nn False "1.prems"(1,2)] res by simp
    qed
  qed
qed


lemma map_of_seeds: "k \<in> set ks \<Longrightarrow> map_of (map (\<lambda>node. (node, [node])) ks) k = Some [k]"
  by (induction ks) auto

lemma upper_bounds_for_correct:
  assumes "targets L \<subseteq> fst ` set L" "set ns \<subseteq> fst ` set L" "distinct ns"
    "\<forall>k\<in>set ns. map_of U k = Some [k]"
  shows "case find (\<lambda>n. (n, n) \<in> (edges L)\<^sup>+) ns of
           Some n \<Rightarrow> upper_bounds_for L ns U = Inl (CycleDetected n)
         | None \<Rightarrow>
             (\<exists>UB. upper_bounds_for L ns U = Inr UB \<and> map fst UB = map fst U \<and>
                   (\<forall>k\<in>set ns. UB_set UB k = (edges L)\<^sup>* `` {k}) \<and>
                   (\<forall>k. k \<notin> set ns \<longrightarrow> map_of UB k = map_of U k))"
  using assms
proof (induction ns arbitrary: U)
  case Nil
  then show ?case by simp
next
  case (Cons n ns)
  let ?E = "edges L"
  from Cons.prems have seed: "map_of U n = Some [n]" and key: "n \<in> fst ` set L" by auto
  have loop: "if (n, n) \<in> ?E\<^sup>+
         then upper_bounds_loop L n [n] = Inl (CycleDetected n)
         else (\<exists>ub'. upper_bounds_loop L n [n] = Inr ub' \<and> set ub' = ?E\<^sup>* `` {n})"
    using Cons.prems(1) key by (intro upper_bounds_loop_correct) auto
  show ?case
  proof (cases "(n, n) \<in> ?E\<^sup>+")
    case True
    with loop seed show ?thesis by simp
  next
    case False
    with loop obtain ub' where
      ub': "upper_bounds_loop L n [n] = Inr ub'" "set ub' = ?E\<^sup>* `` {n}" by auto
    let ?U' = "AList.update n ub' U"
    from Cons.prems(3) have nn: "n \<notin> set ns" "distinct ns" by auto
    have m': "map_of ?U' k = (if k = n then Some ub' else map_of U k)" for k
      by (simp add: update_conv')
    from seed have "n \<in> fst ` set U" by (metis map_of_eq_None_iff not_Some_eq)
    then have keys': "map fst ?U' = map fst U" by (simp add: update_keys)
    have seeds': "\<forall>k\<in>set ns. map_of ?U' k = Some [k]"
      using Cons.prems(4) nn(1) by (auto simp: m')
    from Cons.prems(2) have sub: "set ns \<subseteq> fst ` set L" by auto
    note ih = Cons.IH [OF Cons.prems(1) sub nn(2) seeds']
    have step: "upper_bounds_for L (n # ns) U = upper_bounds_for L ns ?U'"
      using seed ub'(1) by simp
    show ?thesis
    proof (cases "find (\<lambda>n. (n, n) \<in> ?E\<^sup>+) ns")
      case (Some m)
      with ih False step show ?thesis by simp
    next
      case None
      with ih obtain UB where
        UB: "upper_bounds_for L ns ?U' = Inr UB" "map fst UB = map fst ?U'"
          "\<forall>k\<in>set ns. UB_set UB k = ?E\<^sup>* `` {k}"
          "\<forall>k. k \<notin> set ns \<longrightarrow> map_of UB k = map_of ?U' k" by auto
      from UB(4) nn(1) have "map_of UB n = Some ub'" by (simp add: m')
      with ub'(2) have "UB_set UB n = ?E\<^sup>* `` {n}" by (simp add: UB_set_def)
      with UB(3) have a: "\<forall>k\<in>set (n # ns). UB_set UB k = ?E\<^sup>* `` {k}" by simp
      from UB(4) have b: "\<forall>k. k \<notin> set (n # ns) \<longrightarrow> map_of UB k = map_of U k"
        by (simp add: m')
      from UB(1,2) keys' a b step None False show ?thesis by simp
    qed
  qed
qed

lemma make_lattice_upper_bounds_of_correct:
  assumes "distinct (map fst L)" "targets L \<subseteq> fst ` set L"
  shows "case find (\<lambda>n. (n, n) \<in> (edges L)\<^sup>+) (map fst L) of
           Some n \<Rightarrow> make_lattice_upper_bounds_of L = Inl (CycleDetected n)
         | None \<Rightarrow>
             (\<exists>UB. make_lattice_upper_bounds_of L = Inr UB \<and> map fst UB = map fst L \<and>
                   (\<forall>k\<in>fst ` set L. UB_set UB k = (edges L)\<^sup>* `` {k}))"
proof -
  let ?U = "map (\<lambda>node. (node, [node])) (map fst L)"
  have "\<forall>k\<in>set (map fst L). map_of ?U k = Some [k]" by (intro ballI map_of_seeds)
  from upper_bounds_for_correct [OF assms(2) _ assms(1) this]
  have "case find (\<lambda>n. (n, n) \<in> (edges L)\<^sup>+) (map fst L) of
           Some n \<Rightarrow> upper_bounds_for L (map fst L) ?U = Inl (CycleDetected n)
         | None \<Rightarrow>
             (\<exists>UB. upper_bounds_for L (map fst L) ?U = Inr UB \<and> map fst UB = map fst ?U \<and>
                   (\<forall>k\<in>set (map fst L). UB_set UB k = (edges L)\<^sup>* `` {k}) \<and>
                   (\<forall>k. k \<notin> set (map fst L) \<longrightarrow> map_of UB k = map_of ?U k))"
    by simp
  moreover have "map fst ?U = map fst L" by (simp add: comp_def)
  ultimately show ?thesis
    by (auto simp: make_lattice_upper_bounds_of_def split: option.splits)
qed


lemma production_closure_invariant:
  "list_all (\<lambda>(n, ms). n \<in> upper_bound_closure n \<and>
              list_all (\<lambda>m. upper_bound_closure m \<union> {n} \<subseteq> upper_bound_closure n) ms)
     type_promotion_lattice"
  unfolding upper_bound_closure_def LATTICE_UPPER_BOUNDS_literal type_promotion_lattice_literal
  by code_simp

lemma edges_entry: "(n, m) \<in> edges L \<Longrightarrow> \<exists>ms. (n, ms) \<in> set L \<and> m \<in> set ms"
  by (auto simp: edges_def dest: map_of_SomeD)

text \<open>
  C3 (amended). In the closure table built over the fixed lattice, every node is in its
  own closure, and for every covering edge from \<open>n\<close> to \<open>m\<close> the closure of \<open>n\<close>
  contains the closure of \<open>m\<close> and \<open>n\<close> itself. For any lattice with distinct keys whose
  edges lead to keys only: if some node reaches itself along one or more edges, the
  builder fails with \<open>CycleDetected\<close> naming the first such node in the order of the
  dict; otherwise it returns a table with the keys of the lattice that gives each node
  the set of the nodes reachable from it.
\<close>

theorem upper_bound_closure_invariant:
  "(\<forall>n\<in>set (map fst type_promotion_lattice). n \<in> upper_bound_closure n) \<and>
   (\<forall>(n, m)\<in>edges type_promotion_lattice.
      upper_bound_closure m \<union> {n} \<subseteq> upper_bound_closure n) \<and>
   (distinct (map fst L) \<and> targets L \<subseteq> fst ` set L \<longrightarrow>
      (case find (\<lambda>n. (n, n) \<in> (edges L)\<^sup>+) (map fst L) of
         Some n \<Rightarrow> make_lattice_upper_bounds_of L = Inl (CycleDetected n)
       | None \<Rightarrow>
           (\<exists>UB. make_lattice_upper_bounds_of L = Inr UB \<and> map fst UB = map fst L \<and>
                 (\<forall>k\<in>fst ` set L. UB_set UB k = (edges L)\<^sup>* `` {k}))))"
proof (intro conjI impI)
  show "\<forall>n\<in>set (map fst type_promotion_lattice). n \<in> upper_bound_closure n"
    using production_closure_invariant by (fastforce simp: list_all_iff)
  show "\<forall>(n, m)\<in>edges type_promotion_lattice.
      upper_bound_closure m \<union> {n} \<subseteq> upper_bound_closure n"
  proof -
    have "upper_bound_closure m \<union> {n} \<subseteq> upper_bound_closure n"
      if "(n, m) \<in> edges type_promotion_lattice" for n m
    proof -
      from edges_entry [OF that] obtain ms where
        "(n, ms) \<in> set type_promotion_lattice" "m \<in> set ms" by blast
      with production_closure_invariant show ?thesis
        by (fastforce simp: list_all_iff)
    qed
    then show ?thesis by blast
  qed
next
  assume "distinct (map fst L) \<and> targets L \<subseteq> fst ` set L"
  then show "case find (\<lambda>n. (n, n) \<in> (edges L)\<^sup>+) (map fst L) of
         Some n \<Rightarrow> make_lattice_upper_bounds_of L = Inl (CycleDetected n)
       | None \<Rightarrow>
           (\<exists>UB. make_lattice_upper_bounds_of L = Inr UB \<and> map fst UB = map fst L \<and>
                 (\<forall>k\<in>fst ` set L. UB_set UB k = (edges L)\<^sup>* `` {k}))"
    using make_lattice_upper_bounds_of_correct by blast
qed

theorem upper_bound_closure_invariant_witness:
  "''bool'' \<in> upper_bound_closure ''bool'' \<and>
   upper_bound_closure ''float64'' \<union> {''float32''} \<subseteq> upper_bound_closure ''float32'' \<and>
   make_lattice_upper_bounds_of [(''a'', [''b'']), (''b'', [''c'']), (''c'', [''b''])]
     = Inl (CycleDetected ''b'') \<and>
   make_lattice_upper_bounds_of [(''a'', [''c'']), (''b'', [''c'']), (''c'', [])]
     = Inr [(''a'', [''a'', ''c'']), (''b'', [''b'', ''c'']), (''c'', [''c''])]"
proof -
  let ?L = "[(''a'', [''b'']), (''b'', [''c'']), (''c'', [''b''])]"
  note t = upper_bound_closure_invariant
  have k: "''bool'' \<in> set (map fst type_promotion_lattice)"
    "(''float32'', ''float64'') \<in> edges type_promotion_lattice"
    by (simp_all add: type_promotion_lattice_literal edges_def)
  from t [of "[]"] k have 1: "''bool'' \<in> upper_bound_closure ''bool''" by blast
  from t [of "[]"] k have 2:
    "upper_bound_closure ''float64'' \<union> {''float32''} \<subseteq> upper_bound_closure ''float32''"
    by blast
  have e: "edges ?L = {(''a'', ''b''), (''b'', ''c''), (''c'', ''b'')}"
    by (auto simp: edges_def split: if_splits)
  have na: "(''a'', ''a'') \<notin> (edges ?L)\<^sup>+"
  proof
    assume "(''a'', ''a'') \<in> (edges ?L)\<^sup>+"
    then obtain x where "(x, ''a'') \<in> edges ?L" by (auto dest: tranclD2)
    with e show False by simp
  qed
  have "(''b'', ''c'') \<in> edges ?L" "(''c'', ''b'') \<in> edges ?L" by (simp_all add: e)
  then have b: "(''b'', ''b'') \<in> (edges ?L)\<^sup>+" by (rule trancl_into_trancl [OF r_into_trancl])
  from na b have f: "find (\<lambda>n. (n, n) \<in> (edges ?L)\<^sup>+) (map fst ?L) = Some ''b''" by simp
  have h: "distinct (map fst ?L) \<and> targets ?L \<subseteq> fst ` set ?L"
    by (simp add: targets_def)
  from t [of ?L] h f have 3: "make_lattice_upper_bounds_of ?L = Inl (CycleDetected ''b'')"
    by simp
  have 4: "make_lattice_upper_bounds_of [(''a'', [''c'']), (''b'', [''c'']), (''c'', [])]
     = Inr [(''a'', [''a'', ''c'']), (''b'', [''b'', ''c'']), (''c'', [''c''])]"
    by (simp add: make_lattice_upper_bounds_of_def upper_bounds_loop.simps AList.update.simps)
  from 1 2 3 4 show ?thesis by simp
qed

text \<open>
  The claim as written also says that, for a covering edge from \<open>n\<close> to \<open>m\<close>, the
  closure of \<open>m\<close> is not included in the closure of \<open>n\<close>. It is included: the edge
  from \<open>bool\<close> to \<open>int\<close> is one example.
\<close>

theorem closure_subset_counterexample:
  "(''bool'', ''int'') \<in> edges type_promotion_lattice \<and>
   upper_bound_closure ''int'' \<subseteq> upper_bound_closure ''bool''"
proof -
  have "(''bool'', ''int'') \<in> edges type_promotion_lattice"
    by (simp add: type_promotion_lattice_literal edges_def)
  moreover have "upper_bound_closure ''int'' \<subseteq> upper_bound_closure ''bool''"
    unfolding upper_bound_closure_def LATTICE_UPPER_BOUNDS_literal by code_simp
  ultimately show ?thesis by simp
qed

end
